theory Spec2Isabelle
  imports Complex_Main "HOL-Library.Word" "HOL-Library.Sublist" "HOL-Library.Monad_Syntax"
begin

unbundle bit_operations_syntax

section \<open>Single-precision arithmetic\<close>

text \<open>
  The C source computes on \<^verbatim>\<open>float\<close>. A finite \<^verbatim>\<open>float\<close> is modelled by the real number
  it denotes, and every arithmetic operation is the exact operation followed by rounding
  to the nearest binary32 value, ties to even (24 significant bits, least exponent
  \<open>-126\<close>, so that the subnormal numbers are multiples of \<open>2 powi (-149)\<close>). Overflow to
  infinity and NaN are not modelled: the results below are about finite values far
  below \<open>2 powi 128\<close>. The values of \<^verbatim>\<open>double\<close> that the parameter handling passes through
  are rounded to binary64 in the same way.
\<close>

text \<open>\<open>ilog2 x\<close> is the binary exponent of a positive \<open>x\<close>: \<open>2 powi ilog2 x \<le> x < 2 powi (ilog2 x + 1)\<close>.\<close>

function ilog2 :: "real \<Rightarrow> int" where
  "ilog2 x = (if x \<le> 0 then 0
              else if 2 \<le> x then ilog2 (x / 2) + 1
              else if x < 1 then ilog2 (2 * x) - 1
              else 0)"
  by pat_completeness auto
termination
proof (relation "measure (\<lambda>x. nat \<bar>\<lfloor>log 2 x\<rfloor>\<bar>)")
  show "wf (measure (\<lambda>x. nat \<bar>\<lfloor>log 2 x\<rfloor>\<bar>))" by simp
next
  fix x :: real
  assume "\<not> x \<le> 0" "2 \<le> x"
  then have "log 2 (x / 2) = log 2 x - 1" "1 \<le> log 2 x"
    by (simp_all add: log_divide le_log_iff)
  then have "\<lfloor>log 2 (x / 2)\<rfloor> = \<lfloor>log 2 x\<rfloor> - 1" "1 \<le> \<lfloor>log 2 x\<rfloor>"
    by (simp_all add: le_floor_iff)
  then show "(x / 2, x) \<in> measure (\<lambda>x. nat \<bar>\<lfloor>log 2 x\<rfloor>\<bar>)"
    unfolding in_measure by linarith
next
  fix x :: real
  assume "\<not> x \<le> 0" "\<not> 2 \<le> x" "x < 1"
  then have "log 2 (2 * x) = log 2 x + 1" "log 2 x < 0"
    by (simp_all add: log_mult)
  then have "\<lfloor>log 2 (2 * x)\<rfloor> = \<lfloor>log 2 x\<rfloor> + 1" "\<lfloor>log 2 x\<rfloor> < 0"
    by (simp_all add: floor_less_iff)
  then show "(2 * x, x) \<in> measure (\<lambda>x. nat \<bar>\<lfloor>log 2 x\<rfloor>\<bar>)"
    unfolding in_measure by linarith
qed

declare ilog2.simps [simp del]

text \<open>Rounding to the nearest integer, ties to the even one.\<close>

definition rne :: "real \<Rightarrow> int" where
  "rne x = (let f = \<lfloor>x\<rfloor>; r = x - of_int f in
            if r < 1/2 then f
            else if 1/2 < r then f + 1
            else if even f then f else f + 1)"

text \<open>The exponent of \<open>x\<close> in a format whose least exponent is \<open>emin\<close>.\<close>

definition expo :: "int \<Rightarrow> real \<Rightarrow> int" where
  "expo emin x = (if x = 0 then emin else max emin (ilog2 \<bar>x\<bar>))"

text \<open>\<open>round_nearest p emin x\<close> is the value nearest to \<open>x\<close> among the numbers with \<open>p\<close>
  significant bits and least exponent \<open>emin\<close>, ties to even. \<open>fl\<close> rounds to binary32
  (\<^verbatim>\<open>float\<close>), \<open>fl64\<close> to binary64 (\<^verbatim>\<open>double\<close>).\<close>

definition round_nearest :: "nat \<Rightarrow> int \<Rightarrow> real \<Rightarrow> real" where
  "round_nearest p emin x =
     of_int (rne (x / 2 powi (expo emin x - int p + 1))) * 2 powi (expo emin x - int p + 1)"

definition fl :: "real \<Rightarrow> real" where
  "fl x = round_nearest 24 (-126) x"

definition fl64 :: "real \<Rightarrow> real" where
  "fl64 x = round_nearest 53 (-1022) x"

definition is_f32 :: "real \<Rightarrow> bool" where
  "is_f32 x \<longleftrightarrow> fl x = x"

definition fadd :: "real \<Rightarrow> real \<Rightarrow> real" where
  "fadd x y = fl (x + y)"

definition fsub :: "real \<Rightarrow> real \<Rightarrow> real" where
  "fsub x y = fl (x - y)"

definition fmul :: "real \<Rightarrow> real \<Rightarrow> real" where
  "fmul x y = fl (x * y)"

definition fdiv :: "real \<Rightarrow> real \<Rightarrow> real" where
  "fdiv x y = fl (x / y)"

text \<open>The conversion \<^verbatim>\<open>(float)n\<close> of an integer, and the cast \<^verbatim>\<open>(int)x\<close>, which truncates
  towards zero.\<close>

definition i2f :: "int \<Rightarrow> real" where
  "i2f n = fl (of_int n)"

definition f2i :: "real \<Rightarrow> int" where
  "f2i x = (if 0 \<le> x then \<lfloor>x\<rfloor> else \<lceil>x\<rceil>)"

section \<open>The instance\<close>

datatype phase_t = PHASE_IDLE | PHASE_ATTACK | PHASE_HOLD | PHASE_RELEASE

datatype curve_t = CURVE_LINEAR | CURVE_EXPO | CURVE_SCURVE | CURVE_PUMP

datatype mode_t = MODE_TRIGGER | MODE_GATE

text \<open>
  \<^verbatim>\<open>ducker_instance_t\<close>. The C \<^verbatim>\<open>int\<close> fields are mathematical integers here: the sample
  counters stay below \<open>2 ^ 31\<close> for thirteen hours of audio.
\<close>

record ducker_instance =
  module_dir :: string
  channel :: int
  trigger_note :: int
  mode :: mode_t
  depth :: real
  attack :: real
  hold :: real
  release :: real
  curve :: curve_t
  vel_sens :: real
  phase :: phase_t
  phase_pos :: int
  phase_len :: int
  vel_depth :: real
  envelope :: real
  active_notes :: int

definition SAMPLE_RATE :: int where
  "SAMPLE_RATE = 44100"

section \<open>Envelope helpers\<close>

definition clampf :: "real \<Rightarrow> real \<Rightarrow> real \<Rightarrow> real" where
  "clampf x lo hi = (if x < lo then lo else if x > hi then hi else x)"

definition ms_to_samples :: "real \<Rightarrow> int" where
  "ms_to_samples ms = f2i (fmul ms (fdiv (i2f SAMPLE_RATE) 1000))"

definition attack_samples :: "ducker_instance \<Rightarrow> int" where
  "attack_samples inst = ms_to_samples (fmul (attack inst) 50)"

definition hold_samples :: "ducker_instance \<Rightarrow> int" where
  "hold_samples inst = ms_to_samples (fmul (hold inst) 500)"

definition release_samples :: "ducker_instance \<Rightarrow> int" where
  "release_samples inst = ms_to_samples (fmul (release inst) 1000)"

definition shape_curve :: "curve_t \<Rightarrow> real \<Rightarrow> bool \<Rightarrow> real" where
  "shape_curve c t0 is_release =
     (let t = clampf t0 0 1 in
      case c of
        CURVE_EXPO \<Rightarrow> fmul t t
      | CURVE_SCURVE \<Rightarrow> fmul (fmul t t) (fsub 3 (fmul 2 t))
      | CURVE_PUMP \<Rightarrow>
          (if is_release
           then (let inv = fsub 1 t in fsub 1 (fmul (fmul inv inv) inv))
           else t)
      | CURVE_LINEAR \<Rightarrow> t)"

definition start_attack :: "ducker_instance \<Rightarrow> ducker_instance" where
  "start_attack inst0 =
     (let inst = inst0\<lparr>phase := PHASE_ATTACK, phase_pos := 0,
                       phase_len := attack_samples inst0\<rparr>
      in if phase_len inst \<le> 0
         then (let inst = inst\<lparr>envelope := fsub 1 (vel_depth inst), phase := PHASE_HOLD,
                                phase_pos := 0, phase_len := hold_samples inst\<rparr>
               in if phase_len inst \<le> 0 \<and> mode inst = MODE_TRIGGER
                  then inst\<lparr>phase := PHASE_RELEASE, phase_pos := 0,
                            phase_len := release_samples inst\<rparr>
                  else inst)
         else inst)"

definition start_release :: "ducker_instance \<Rightarrow> ducker_instance" where
  "start_release inst0 =
     (let inst = inst0\<lparr>phase := PHASE_RELEASE, phase_pos := 0,
                       phase_len := release_samples inst0\<rparr>
      in if phase_len inst \<le> 0
         then inst\<lparr>phase := PHASE_IDLE, envelope := 1\<rparr>
         else inst)"

section \<open>Instance creation\<close>

text \<open>\<^verbatim>\<open>v2_create_instance\<close>: \<^verbatim>\<open>calloc\<close> zeroes every field, then the defaults are stored.
  \<^verbatim>\<open>strncpy\<close> keeps at most 511 bytes of the directory. The configuration argument is
  not read.\<close>

definition v2_create_instance :: "string \<Rightarrow> string \<Rightarrow> ducker_instance" where
  "v2_create_instance dir config_json =
     \<lparr> module_dir = take 511 dir,
       channel = 1,
       trigger_note = 36,
       mode = MODE_TRIGGER,
       depth = 1,
       attack = fl (1/10),
       hold = fl (2/10),
       release = fl (3/10),
       curve = CURVE_LINEAR,
       vel_sens = 0,
       phase = PHASE_IDLE,
       phase_pos = 0,
       phase_len = 0,
       vel_depth = 0,
       envelope = 1,
       active_notes = 0 \<rparr>"

section \<open>The block processor\<close>

text \<open>The \<^verbatim>\<open>switch\<close> at the head of the loop body of \<^verbatim>\<open>v2_process_block\<close>: the envelope
  advances by one sample.\<close>

definition advance_envelope :: "ducker_instance \<Rightarrow> ducker_instance" where
  "advance_envelope inst0 =
     (case phase inst0 of
        PHASE_ATTACK \<Rightarrow>
          (let inst = (if phase_len inst0 > 0
                       then (let t = fdiv (i2f (phase_pos inst0)) (i2f (phase_len inst0));
                                 shaped = shape_curve (curve inst0) t False
                             in inst0\<lparr>envelope := fsub 1 (fmul (vel_depth inst0) shaped)\<rparr>)
                       else inst0);
               inst = inst\<lparr>phase_pos := phase_pos inst + 1\<rparr>
           in if phase_pos inst \<ge> phase_len inst
              then (let inst = inst\<lparr>envelope := fsub 1 (vel_depth inst), phase := PHASE_HOLD,
                                     phase_pos := 0, phase_len := hold_samples inst\<rparr>
                    in if phase_len inst \<le> 0 \<and> mode inst = MODE_TRIGGER
                       then inst\<lparr>phase := PHASE_RELEASE, phase_pos := 0,
                                 phase_len := release_samples inst\<rparr>
                       else inst)
              else inst)
      | PHASE_HOLD \<Rightarrow>
          (let inst = inst0\<lparr>envelope := fsub 1 (vel_depth inst0)\<rparr>;
               inst = inst\<lparr>phase_pos := phase_pos inst + 1\<rparr>
           in if mode inst = MODE_TRIGGER \<and> phase_pos inst \<ge> phase_len inst
              then inst\<lparr>phase := PHASE_RELEASE, phase_pos := 0,
                        phase_len := release_samples inst\<rparr>
              else inst)
      | PHASE_RELEASE \<Rightarrow>
          (let inst = (if phase_len inst0 > 0
                       then (let t = fdiv (i2f (phase_pos inst0)) (i2f (phase_len inst0));
                                 shaped = shape_curve (curve inst0) t True
                             in inst0\<lparr>envelope := fadd (fsub 1 (vel_depth inst0))
                                                         (fmul (vel_depth inst0) shaped)\<rparr>)
                       else inst0);
               inst = inst\<lparr>phase_pos := phase_pos inst + 1\<rparr>
           in if phase_pos inst \<ge> phase_len inst
              then inst\<lparr>phase := PHASE_IDLE, envelope := 1\<rparr>
              else inst)
      | PHASE_IDLE \<Rightarrow> inst0)"

text \<open>One channel value of a frame: multiply by the gain, clamp to the 16-bit range,
  cast back to \<^verbatim>\<open>int16_t\<close>.\<close>

definition apply_gain :: "real \<Rightarrow> 16 word \<Rightarrow> 16 word" where
  "apply_gain gain s =
     (let l = fmul (i2f (sint s)) gain;
          l = (if l > 32767 then 32767 else l);
          l = (if l < -32768 then -32768 else l)
      in word_of_int (f2i l))"

text \<open>The loop of \<^verbatim>\<open>v2_process_block\<close> from frame \<open>i\<close> on.\<close>

function process_frames :: "nat \<Rightarrow> nat \<Rightarrow> ducker_instance \<Rightarrow> 16 word list
    \<Rightarrow> ducker_instance \<times> 16 word list" where
  "process_frames i frames inst audio =
     (if i < frames
      then (let inst' = advance_envelope inst;
                gain = envelope inst';
                l = apply_gain gain (audio ! (i * 2));
                r = apply_gain gain (audio ! (i * 2 + 1))
            in process_frames (i + 1) frames inst' (audio[i * 2 := l, i * 2 + 1 := r]))
      else (inst, audio))"
  by pat_completeness auto
termination
  by (relation "measure (\<lambda>(i, frames, inst, audio). frames - i)") auto

declare process_frames.simps [simp del]

text \<open>\<^verbatim>\<open>v2_process_block\<close> on an interleaved stereo buffer. The C function reads and writes
  \<open>2 * frames\<close> values; on a shorter buffer its behaviour is undefined, which is \<open>None\<close>
  here.\<close>

definition v2_process_block :: "ducker_instance \<Rightarrow> 16 word list \<Rightarrow> int
    \<Rightarrow> (ducker_instance \<times> 16 word list) option" where
  "v2_process_block inst audio frames =
     (if frames \<le> 0 then Some (inst, audio)
      else if int (length audio) < 2 * frames then None
      else Some (process_frames 0 (nat frames) inst audio))"

section \<open>The MIDI handler\<close>

text \<open>The local \<^verbatim>\<open>vel_scale\<close> of \<^verbatim>\<open>ducker_on_midi\<close>; the velocity byte is converted to
  \<^verbatim>\<open>float\<close> for the division.\<close>

definition velocity_scale :: "real \<Rightarrow> 8 word \<Rightarrow> real" where
  "velocity_scale sens vel =
     (if sens > 0
      then fadd (fsub 1 sens) (fmul sens (fdiv (i2f (uint vel)) 127))
      else 1)"

text \<open>\<^verbatim>\<open>ducker_on_midi\<close>: the message is the list of its bytes, \<^verbatim>\<open>len\<close> its length. The
  \<^verbatim>\<open>source\<close> argument is not read.\<close>

definition ducker_on_midi :: "ducker_instance \<Rightarrow> 8 word list \<Rightarrow> ducker_instance" where
  "ducker_on_midi inst msg =
     (if length msg < 3 then inst
      else
        (let status = (msg ! 0) AND 0xF0;
             ch = ((msg ! 0) AND 0x0F) + 1;
             note = msg ! 1;
             vel = msg ! 2
         in if channel inst > 0 \<and> uint ch \<noteq> channel inst then inst
            else if uint note \<noteq> trigger_note inst then inst
            else if status = 0x90 \<and> vel > 0
            then (let inst = inst\<lparr>active_notes := active_notes inst + 1\<rparr>;
                      vel_scale = velocity_scale (vel_sens inst) vel;
                      inst = inst\<lparr>vel_depth := fmul (depth inst) vel_scale\<rparr>
                  in start_attack inst)
            else if status = 0x80 \<or> (status = 0x90 \<and> vel = 0)
            then (let inst = (if active_notes inst > 0
                              then inst\<lparr>active_notes := active_notes inst - 1\<rparr>
                              else inst)
                  in if mode inst = MODE_GATE \<and> active_notes inst = 0
                     then (if phase inst = PHASE_HOLD \<or> phase inst = PHASE_ATTACK
                           then start_release inst
                           else inst)
                     else inst)
            else inst))"

section \<open>Events and traces\<close>

text \<open>A message passes the channel and note filters of \<open>ducker_on_midi\<close>; it is a
  note-on (status \<open>0x90\<close> with a positive velocity) or a note-off (status \<open>0x80\<close>, or
  \<open>0x90\<close> with velocity 0).\<close>

definition qualifies :: "ducker_instance \<Rightarrow> 8 word list \<Rightarrow> bool" where
  "qualifies inst msg \<longleftrightarrow>
     3 \<le> length msg \<and>
     \<not> (channel inst > 0 \<and> uint (((msg ! 0) AND 0x0F) + 1) \<noteq> channel inst) \<and>
     uint (msg ! 1) = trigger_note inst"

definition is_note_on :: "8 word list \<Rightarrow> bool" where
  "is_note_on msg \<longleftrightarrow> (msg ! 0) AND 0xF0 = 0x90 \<and> msg ! 2 > 0"

definition is_note_off :: "8 word list \<Rightarrow> bool" where
  "is_note_off msg \<longleftrightarrow>
     (msg ! 0) AND 0xF0 = 0x80 \<or> ((msg ! 0) AND 0xF0 = 0x90 \<and> msg ! 2 = 0)"

text \<open>\<open>run_samples n\<close> is \<open>n\<close> iterations of the loop of the block processor on the
  instance; \<open>gain_at inst k\<close> is the value of the local \<^verbatim>\<open>gain\<close> in iteration \<open>k\<close>
  (counted from 0) when processing starts in \<open>inst\<close>.\<close>

definition run_samples :: "nat \<Rightarrow> ducker_instance \<Rightarrow> ducker_instance" where
  "run_samples n inst = (advance_envelope ^^ n) inst"

definition gain_at :: "ducker_instance \<Rightarrow> nat \<Rightarrow> real" where
  "gain_at inst k = envelope (run_samples (Suc k) inst)"

text \<open>What happens to an instance between parameter changes: a message arrives, or a
  sample is processed.\<close>

datatype event = Midi "8 word list" | Sample

fun step :: "ducker_instance \<Rightarrow> event \<Rightarrow> ducker_instance" where
  "step inst (Midi msg) = ducker_on_midi inst msg"
| "step inst Sample = advance_envelope inst"

definition run_events :: "ducker_instance \<Rightarrow> event list \<Rightarrow> ducker_instance" where
  "run_events inst evs = foldl step inst evs"

text \<open>The relation between position and length that the engine keeps.\<close>

definition phase_inv :: "ducker_instance \<Rightarrow> bool" where
  "phase_inv s \<longleftrightarrow>
     (phase s \<noteq> PHASE_IDLE \<longrightarrow> 0 \<le> phase_pos s) \<and>
     (phase s = PHASE_ATTACK \<longrightarrow> phase_pos s < phase_len s) \<and>
     (phase s = PHASE_HOLD \<and> mode s = MODE_TRIGGER \<longrightarrow> phase_pos s < phase_len s) \<and>
     (phase s = PHASE_RELEASE \<and> 0 < phase_len s \<longrightarrow> phase_pos s < phase_len s)"

text \<open>The number of samples a Trigger-mode envelope still needs to reach Idle.\<close>

definition remaining :: "ducker_instance \<Rightarrow> int" where
  "remaining s =
     (case phase s of
        PHASE_IDLE \<Rightarrow> 0
      | PHASE_RELEASE \<Rightarrow> max 1 (phase_len s - phase_pos s)
      | PHASE_HOLD \<Rightarrow> (phase_len s - phase_pos s) + max 1 (release_samples s)
      | PHASE_ATTACK \<Rightarrow> (phase_len s - phase_pos s) + max 0 (hold_samples s)
                          + max 1 (release_samples s))"

text \<open>The configuration of the concrete scenarios of the specification: channel 1,
  note 36, depth 1, no attack, a hold of 0.1 (2205 samples), no release, linear curve,
  in the given mode.\<close>

definition scenario_instance :: "mode_t \<Rightarrow> ducker_instance" where
  "scenario_instance m =
     (v2_create_instance [] [])\<lparr>channel := 1, trigger_note := 36, mode := m, depth := 1,
        attack := 0, hold := fl (1/10), release := 0, curve := CURVE_LINEAR\<rparr>"

text \<open>The velocity byte of a message is a MIDI data byte: its high bit is clear.\<close>

definition velocity_ok :: "event \<Rightarrow> bool" where
  "velocity_ok ev =
     (case ev of Midi msg \<Rightarrow> 3 \<le> length msg \<longrightarrow> uint (msg ! 2) \<le> 127 | Sample \<Rightarrow> True)"

text \<open>Depth and velocity sensitivity are in the range that every write clamps them to,
  and the depth of the current cycle and the envelope value are in \<open>[0, 1]\<close>.\<close>

definition range_inv :: "ducker_instance \<Rightarrow> bool" where
  "range_inv s \<longleftrightarrow>
     0 \<le> depth s \<and> depth s \<le> 1 \<and>
     0 \<le> vel_sens s \<and> vel_sens s \<le> 1 \<and> is_f32 (vel_sens s) \<and>
     0 \<le> vel_depth s \<and> vel_depth s \<le> 1 \<and> is_f32 (vel_depth s) \<and>
     0 \<le> envelope s \<and> envelope s \<le> 1 \<and>
     (phase s = PHASE_IDLE \<longrightarrow> envelope s = 1)"


section \<open>Strings and numbers\<close>

text \<open>
  The parameter interface exchanges C strings. A string is modelled by the list of its
  characters before the terminating zero. The functions of the C library that the source
  calls are modelled on the inputs the parameter interface meets: decimal numerals with an
  optional sign, fraction and exponent. \<^verbatim>\<open>atof\<close> of a hexadecimal numeral, an infinity or a
  NaN is outside the model and is \<open>None\<close>.
\<close>

definition is_digit :: "char \<Rightarrow> bool" where
  "is_digit c \<longleftrightarrow> c \<in> set ''0123456789''"

definition digit_val :: "char \<Rightarrow> nat" where
  "digit_val c = of_char c - 48"

definition digit_char :: "nat \<Rightarrow> char" where
  "digit_char d = ''0123456789'' ! d"

text \<open>\<^verbatim>\<open>isspace\<close> in the C locale.\<close>

definition is_space :: "char \<Rightarrow> bool" where
  "is_space c \<longleftrightarrow> c \<in> set [CHR '' '', CHR 0x09, CHR 0x0A, CHR 0x0B, CHR 0x0C, CHR 0x0D]"

text \<open>\<open>parse_digits acc cnt s\<close> reads the longest prefix of decimal digits of \<open>s\<close>: the
  value read (continuing \<open>acc\<close>), the number of digits read (continuing \<open>cnt\<close>), and the
  rest of the string.\<close>

fun parse_digits :: "nat \<Rightarrow> nat \<Rightarrow> string \<Rightarrow> nat \<times> nat \<times> string" where
  "parse_digits acc cnt [] = (acc, cnt, [])"
| "parse_digits acc cnt (c # cs) =
     (if is_digit c then parse_digits (10 * acc + digit_val c) (Suc cnt) cs
      else (acc, cnt, c # cs))"

fun parse_sign :: "string \<Rightarrow> bool \<times> string" where
  "parse_sign [] = (False, [])"
| "parse_sign (c # cs) =
     (if c = CHR ''-'' then (True, cs) else if c = CHR ''+'' then (False, cs)
      else (False, c # cs))"

text \<open>\<^verbatim>\<open>atoi\<close>: white space, an optional sign, then digits; \<open>0\<close> when there is no digit. The
  result is not reduced to the range of \<^verbatim>\<open>int\<close>.\<close>

definition atoi :: "string \<Rightarrow> int" where
  "atoi s =
     (let (neg, s1) = parse_sign (dropWhile is_space s);
          (n, cnt, rest) = parse_digits 0 0 s1
      in if neg then - int n else int n)"

text \<open>The exponent part of a decimal numeral: \<open>e\<close> or \<open>E\<close>, an optional sign and at least
  one digit; anything else is no exponent.\<close>

definition parse_exponent :: "string \<Rightarrow> int" where
  "parse_exponent s =
     (case s of
        [] \<Rightarrow> 0
      | c # cs \<Rightarrow>
          if c = CHR ''e'' \<or> c = CHR ''E''
          then (let (neg, s1) = parse_sign cs; (n, cnt, rest) = parse_digits 0 0 s1
                in if cnt = 0 then 0 else if neg then - int n else int n)
          else 0)"

definition unmodelled_number :: "string \<Rightarrow> bool" where
  "unmodelled_number s \<longleftrightarrow>
     (case s of
        [] \<Rightarrow> False
      | c # cs \<Rightarrow> c \<in> set ''iInN'' \<or>
          (c = CHR ''0'' \<and> (case cs of [] \<Rightarrow> False | d # ds \<Rightarrow> d \<in> set ''xX'')))"

text \<open>\<^verbatim>\<open>atof\<close>: the decimal numeral at the head of the string, correctly rounded to
  binary64; \<open>0\<close> when no numeral starts there.\<close>

definition atof :: "string \<Rightarrow> real option" where
  "atof s =
     (let (neg, s1) = parse_sign (dropWhile is_space s)
      in if unmodelled_number s1 then None
         else
           (let (i, ci, s2) = parse_digits 0 0 s1;
                (f, cf, s3) = (case s2 of [] \<Rightarrow> (0, 0, [])
                               | c # r \<Rightarrow> if c = CHR ''.'' then parse_digits 0 0 r
                                          else (0, 0, s2))
            in if ci + cf = 0 then Some 0
               else
                 (let v = (real i * 10 ^ cf + real f) / 10 ^ cf * 10 powi (parse_exponent s3)
                  in Some (fl64 (if neg then - v else v)))))"

text \<open>\<^verbatim>\<open>strstr\<close>: the suffix of the string that starts at the first occurrence of the
  needle.\<close>

fun strstr :: "string \<Rightarrow> string \<Rightarrow> string option" where
  "strstr [] needle = (if needle = [] then Some [] else None)"
| "strstr (c # cs) needle =
     (if prefix needle (c # cs) then Some (c # cs) else strstr cs needle)"

text \<open>\<^verbatim>\<open>%d\<close> of \<^verbatim>\<open>snprintf\<close>.\<close>

function show_nat :: "nat \<Rightarrow> string" where
  "show_nat n = (if n < 10 then [digit_char n] else show_nat (n div 10) @ [digit_char (n mod 10)])"
  by pat_completeness auto
termination
  by (relation "measure id") auto

declare show_nat.simps [simp del]

definition show_int :: "int \<Rightarrow> string" where
  "show_int i = (if i < 0 then CHR ''-'' # show_nat (nat (- i)) else show_nat (nat i))"

text \<open>\<^verbatim>\<open>%.nf\<close> of \<^verbatim>\<open>snprintf\<close>: the exact value of the argument rounded to \<open>n\<close> decimals,
  ties to even.\<close>

fun fixed_digits :: "nat \<Rightarrow> nat \<Rightarrow> string" where
  "fixed_digits 0 v = []"
| "fixed_digits (Suc n) v = fixed_digits n (v div 10) @ [digit_char (v mod 10)]"

definition show_fixed :: "nat \<Rightarrow> real \<Rightarrow> string" where
  "show_fixed n x =
     (let m = nat (rne (\<bar>x\<bar> * 10 ^ n))
      in (if x < 0 then ''-'' else '''') @ show_nat (m div 10 ^ n) @ ''.'' @ fixed_digits n (m mod 10 ^ n))"

section \<open>The parameter interface\<close>

text \<open>\<^verbatim>\<open>json_get_number\<close> and \<^verbatim>\<open>json_get_string\<close>. The search pattern is written into a
  buffer of 64 bytes. \<^verbatim>\<open>json_get_number\<close> returns \<open>-1\<close> when the key is not found
  (\<open>Missing\<close>) and stores \<^verbatim>\<open>(float)atof(p)\<close> otherwise.\<close>

datatype lookup = Missing | Number real | Unmodelled

definition json_get_number :: "string \<Rightarrow> string \<Rightarrow> lookup" where
  \<open>json_get_number json key =
     (let search = take 63 (''"'' @ key @ ''":'')
      in case strstr json search of
           None \<Rightarrow> Missing
         | Some p \<Rightarrow>
             (case atof (dropWhile (\<lambda>c. c = CHR '' '' \<or> c = CHR 0x09) (drop (length search) p)) of
                None \<Rightarrow> Unmodelled
              | Some d \<Rightarrow> Number (fl d)))\<close>

definition json_get_string :: "string \<Rightarrow> string \<Rightarrow> nat \<Rightarrow> string option" where
  \<open>json_get_string json key out_len =
     (let search = take 63 (''"'' @ key @ ''":"'')
      in case strstr json search of
           None \<Rightarrow> None
         | Some p \<Rightarrow>
             Some (take (out_len - 1) (takeWhile (\<lambda>c. c \<noteq> CHR 0x22) (drop (length search) p))))\<close>

text \<open>The fields \<^verbatim>\<open>mode\<close> and \<^verbatim>\<open>curve\<close> are \<^verbatim>\<open>int\<close>s in the source. Every write stores
  one of the enumerated values (\<^verbatim>\<open>parse_mode\<close> returns one of the two modes, \<^verbatim>\<open>parse_curve\<close>
  clamps to \<open>0..3\<close>, and loading a state clamps before the conversion), which is why the
  instance holds them as enumerations; the conversions are written out here.\<close>

definition int_of_mode :: "mode_t \<Rightarrow> int" where
  "int_of_mode m = (case m of MODE_TRIGGER \<Rightarrow> 0 | MODE_GATE \<Rightarrow> 1)"

definition mode_of_int :: "int \<Rightarrow> mode_t" where
  "mode_of_int i = (if i = 1 then MODE_GATE else MODE_TRIGGER)"

definition int_of_curve :: "curve_t \<Rightarrow> int" where
  "int_of_curve c =
     (case c of CURVE_LINEAR \<Rightarrow> 0 | CURVE_EXPO \<Rightarrow> 1 | CURVE_SCURVE \<Rightarrow> 2 | CURVE_PUMP \<Rightarrow> 3)"

definition curve_of_int :: "int \<Rightarrow> curve_t" where
  "curve_of_int i =
     (if i = 1 then CURVE_EXPO else if i = 2 then CURVE_SCURVE
      else if i = 3 then CURVE_PUMP else CURVE_LINEAR)"

definition parse_channel :: "string \<Rightarrow> int option" where
  "parse_channel val =
     (if val = ''Omni'' then Some 0
      else (let ch = atoi val
            in if 1 \<le> ch \<and> ch \<le> 16 then Some ch
               else map_option (\<lambda>d. f2i (fadd (fmul (fl d) 16) (1/2))) (atof val)))"

definition parse_curve :: "string \<Rightarrow> curve_t option" where
  "parse_curve val =
     (if val = ''Linear'' then Some CURVE_LINEAR
      else if val = ''Expo'' then Some CURVE_EXPO
      else if val = ''S-Curve'' then Some CURVE_SCURVE
      else if val = ''Pump'' then Some CURVE_PUMP
      else map_option
        (\<lambda>d. let idx = f2i (fl64 (fl64 (d * 3) + 1/2));
                 idx = (if idx < 0 then 0 else idx);
                 idx = (if idx > 3 then 3 else idx)
             in curve_of_int idx)
        (atof val))"

definition parse_mode :: "string \<Rightarrow> mode_t option" where
  "parse_mode val =
     (if val = ''Trigger'' then Some MODE_TRIGGER
      else if val = ''Gate'' then Some MODE_GATE
      else map_option (\<lambda>d. if d > 1/2 then MODE_GATE else MODE_TRIGGER) (atof val))"

text \<open>One step of loading a state: the value of a key, if it is there, is stored.
  \<open>load_named\<close> is the form of the keys that may hold a name instead of a number.\<close>

definition load_number :: "string \<Rightarrow> string \<Rightarrow> (real \<Rightarrow> ducker_instance \<Rightarrow> ducker_instance)
    \<Rightarrow> ducker_instance \<Rightarrow> ducker_instance option" where
  "load_number json key store inst =
     (case json_get_number json key of
        Missing \<Rightarrow> Some inst
      | Unmodelled \<Rightarrow> None
      | Number fval \<Rightarrow> Some (store fval inst))"

definition load_named :: "string \<Rightarrow> string \<Rightarrow> (string \<Rightarrow> ducker_instance \<Rightarrow> ducker_instance option)
    \<Rightarrow> (real \<Rightarrow> ducker_instance \<Rightarrow> ducker_instance)
    \<Rightarrow> ducker_instance \<Rightarrow> ducker_instance option" where
  "load_named json key by_name store inst =
     (case json_get_string json key 32 of
        Some sval \<Rightarrow> by_name sval inst
      | None \<Rightarrow> load_number json key store inst)"

text \<open>\<^verbatim>\<open>v2_set_param\<close>. The result is \<open>None\<close> when the value read is outside the model of
  \<^verbatim>\<open>atof\<close>.\<close>

definition v2_set_param :: "ducker_instance \<Rightarrow> string \<Rightarrow> string \<Rightarrow> ducker_instance option" where
  "v2_set_param inst key val =
     (if key = ''channel'' then map_option (\<lambda>c. inst\<lparr>channel := c\<rparr>) (parse_channel val)
      else if key = ''trigger_note''
      then (let n = atoi val; n = (if n < 0 then 0 else n); n = (if n > 127 then 127 else n)
            in Some (inst\<lparr>trigger_note := n\<rparr>))
      else if key = ''mode'' then map_option (\<lambda>m. inst\<lparr>mode := m\<rparr>) (parse_mode val)
      else if key = ''depth''
      then map_option (\<lambda>d. inst\<lparr>depth := clampf (fl d) 0 1\<rparr>) (atof val)
      else if key = ''attack''
      then map_option (\<lambda>d. inst\<lparr>attack := clampf (fl d) 0 1\<rparr>) (atof val)
      else if key = ''hold''
      then map_option (\<lambda>d. inst\<lparr>hold := clampf (fl d) 0 1\<rparr>) (atof val)
      else if key = ''release''
      then map_option (\<lambda>d. inst\<lparr>release := clampf (fl d) 0 1\<rparr>) (atof val)
      else if key = ''curve'' then map_option (\<lambda>c. inst\<lparr>curve := c\<rparr>) (parse_curve val)
      else if key = ''vel_sens''
      then map_option (\<lambda>d. inst\<lparr>vel_sens := clampf (fl d) 0 1\<rparr>) (atof val)
      else if key = ''state''
      then do {
        inst \<leftarrow> load_named val ''channel''
          (\<lambda>sval i. map_option (\<lambda>c. i\<lparr>channel := c\<rparr>) (parse_channel sval))
          (\<lambda>fval i. i\<lparr>channel := f2i (clampf fval 0 16)\<rparr>) inst;
        inst \<leftarrow> load_number val ''trigger_note''
          (\<lambda>fval i. i\<lparr>trigger_note := f2i (clampf fval 0 127)\<rparr>) inst;
        inst \<leftarrow> load_named val ''mode''
          (\<lambda>sval i. map_option (\<lambda>m. i\<lparr>mode := m\<rparr>) (parse_mode sval))
          (\<lambda>fval i. i\<lparr>mode := mode_of_int (f2i (clampf fval 0 1))\<rparr>) inst;
        inst \<leftarrow> load_number val ''depth'' (\<lambda>fval i. i\<lparr>depth := clampf fval 0 1\<rparr>) inst;
        inst \<leftarrow> load_number val ''attack'' (\<lambda>fval i. i\<lparr>attack := clampf fval 0 1\<rparr>) inst;
        inst \<leftarrow> load_number val ''hold'' (\<lambda>fval i. i\<lparr>hold := clampf fval 0 1\<rparr>) inst;
        inst \<leftarrow> load_number val ''release'' (\<lambda>fval i. i\<lparr>release := clampf fval 0 1\<rparr>) inst;
        inst \<leftarrow> load_named val ''curve''
          (\<lambda>sval i. map_option (\<lambda>c. i\<lparr>curve := c\<rparr>) (parse_curve sval))
          (\<lambda>fval i. i\<lparr>curve := curve_of_int (f2i (clampf fval 0 3))\<rparr>) inst;
        load_number val ''vel_sens'' (\<lambda>fval i. i\<lparr>vel_sens := clampf fval 0 1\<rparr>) inst
      }
      else Some inst)"

definition channel_name :: "int \<Rightarrow> string" where
  "channel_name ch =
     (if ch < 0 \<or> ch > 16 then ''Omni''
      else ([''Omni'', ''1'', ''2'', ''3'', ''4''] @ [''5'', ''6'', ''7'', ''8''] @
            [''9'', ''10'', ''11'', ''12''] @ [''13'', ''14'', ''15'', ''16'']) ! nat ch)"

definition curve_name :: "curve_t \<Rightarrow> string" where
  "curve_name c =
     (case c of CURVE_LINEAR \<Rightarrow> ''Linear'' | CURVE_EXPO \<Rightarrow> ''Expo''
      | CURVE_SCURVE \<Rightarrow> ''S-Curve'' | CURVE_PUMP \<Rightarrow> ''Pump'')"

definition mode_name :: "mode_t \<Rightarrow> string" where
  "mode_name m = (if m = MODE_GATE then ''Gate'' else ''Trigger'')"

definition state_json :: "ducker_instance \<Rightarrow> string" where
  \<open>state_json inst =
     ''{"channel":'' @ show_int (channel inst) @
     '',"trigger_note":'' @ show_int (trigger_note inst) @
     '',"mode":'' @ show_int (int_of_mode (mode inst)) @
     '',"depth":'' @ show_fixed 3 (depth inst) @
     '',"attack":'' @ show_fixed 3 (attack inst) @
     '',"hold":'' @ show_fixed 3 (hold inst) @
     '',"release":'' @ show_fixed 3 (release inst) @
     '',"curve":'' @ show_int (int_of_curve (curve inst)) @
     '',"vel_sens":'' @ show_fixed 3 (vel_sens inst) @ ''}''\<close>

definition ui_hierarchy_json :: string where
  \<open>ui_hierarchy_json =
     ''{'' @
     ''"modes":null,'' @
     ''"levels":{'' @
     ''"root":{'' @
     ''"children":null,'' @
     ''"knobs":["channel","trigger_note","mode","depth","attack","hold","release","curve"],'' @
     ''"params":["channel","trigger_note","mode","depth","attack","hold","release","curve","vel_sens"]'' @
     ''}'' @
     ''}'' @
     ''}''\<close>

definition chain_params_json :: string where
  \<open>chain_params_json =
     ''['' @
     ''{"key":"channel","name":"Channel","type":"enum","options":["Omni","1","2","3","4","5","6","7","8","9","10","11","12","13","14","15","16"],"default":"1"},'' @
     ''{"key":"trigger_note","name":"Trigger","type":"int","min":0,"max":127,"default":36,"step":1},'' @
     ''{"key":"mode","name":"Mode","type":"enum","options":["Trigger","Gate"],"default":"Trigger"},'' @
     ''{"key":"depth","name":"Depth","type":"float","min":0,"max":1,"default":1,"step":0.01},'' @
     ''{"key":"attack","name":"Attack","type":"float","min":0,"max":1,"default":0.1,"step":0.01},'' @
     ''{"key":"hold","name":"Hold","type":"float","min":0,"max":1,"default":0.2,"step":0.01},'' @
     ''{"key":"release","name":"Release","type":"float","min":0,"max":1,"default":0.3,"step":0.01},'' @
     ''{"key":"curve","name":"Curve","type":"enum","options":["Linear","Expo","S-Curve","Pump"],"default":"Linear"}'' @
     '']''\<close>

text \<open>\<^verbatim>\<open>v2_get_param\<close> with a buffer that holds the whole result: the string written, and
  \<open>None\<close> where the source returns \<open>-1\<close>.\<close>

definition v2_get_param :: "ducker_instance \<Rightarrow> string \<Rightarrow> string option" where
  "v2_get_param inst key =
     (if key = ''channel'' then Some (channel_name (channel inst))
      else if key = ''trigger_note'' then Some (show_int (trigger_note inst))
      else if key = ''mode'' then Some (mode_name (mode inst))
      else if key = ''depth'' then Some (show_fixed 2 (depth inst))
      else if key = ''attack'' then Some (show_fixed 2 (attack inst))
      else if key = ''hold'' then Some (show_fixed 2 (hold inst))
      else if key = ''release'' then Some (show_fixed 2 (release inst))
      else if key = ''curve'' then Some (curve_name (curve inst))
      else if key = ''vel_sens'' then Some (show_fixed 2 (vel_sens inst))
      else if key = ''name'' then Some ''DUCKER''
      else if key = ''state'' then Some (state_json inst)
      else if key = ''ui_hierarchy'' then Some ui_hierarchy_json
      else if key = ''chain_params'' then Some chain_params_json
      else None)"

text \<open>The values that a decimal string with at most three decimals in \<open>[0, 1]\<close> stores in a
  \<^verbatim>\<open>float\<close> parameter.\<close>

definition milli :: "real \<Rightarrow> bool" where
  "milli p \<longleftrightarrow> (\<exists>k\<le>1000. p = fl (fl64 (real k / 1000)))"

section \<open>Properties of rounding\<close>

lemmas f32_eval = fl_def fl64_def round_nearest_def expo_def ilog2.simps rne_def power_int_minus
  fadd_def fsub_def fmul_def fdiv_def i2f_def f2i_def

lemma powi2_less_iff: "(2::real) powi m < 2 powi n \<longleftrightarrow> m < n"
proof
  assume a: "(2::real) powi m < 2 powi n"
  show "m < n"
  proof (rule ccontr)
    assume "\<not> m < n"
    then have "(2::real) powi n \<le> 2 powi m"
      by (intro power_int_increasing) auto
    with a show False by simp
  qed
next
  assume "m < n"
  then show "(2::real) powi m < 2 powi n"
    by (intro power_int_strict_increasing) auto
qed

lemma powi2_le_iff: "(2::real) powi m \<le> 2 powi n \<longleftrightarrow> m \<le> n"
  using powi2_less_iff [of n m] by (auto simp: not_less [symmetric])

lemma powi2_Suc: "(2::real) powi (n + 1) = 2 * 2 powi n"
  by (simp add: power_int_add)

lemma powi2_pred: "(2::real) powi (n - 1) = 2 powi n / 2"
  by (simp add: power_int_diff)

lemma ilog2_bounds: "0 < x \<Longrightarrow> 2 powi (ilog2 x) \<le> x \<and> x < 2 powi (ilog2 x + 1)"
proof (induction x rule: ilog2.induct)
  case (1 x)
  show ?case
  proof (cases "2 \<le> x")
    case True
    with 1 have IH: "2 powi ilog2 (x / 2) \<le> x / 2 \<and> x / 2 < 2 powi (ilog2 (x / 2) + 1)"
      by simp
    have e: "ilog2 x = ilog2 (x / 2) + 1"
      using True by (subst ilog2.simps) simp
    show ?thesis
      unfolding e
      using IH powi2_Suc [of "ilog2 (x / 2)"] powi2_Suc [of "ilog2 (x / 2) + 1"]
      by linarith
  next
    case False
    note nge = this
    show ?thesis
    proof (cases "x < 1")
      case True
      with 1 nge have IH: "2 powi ilog2 (2 * x) \<le> 2 * x \<and> 2 * x < 2 powi (ilog2 (2 * x) + 1)"
        by simp
      have e: "ilog2 x = ilog2 (2 * x) - 1"
        using True nge 1(3) by (subst ilog2.simps) simp
      show ?thesis
        unfolding e
        using IH powi2_pred [of "ilog2 (2 * x)"] powi2_Suc [of "ilog2 (2 * x)"]
        by auto
    next
      case False
      with nge 1(3) have e: "ilog2 x = 0"
        by (subst ilog2.simps) simp
      show ?thesis
        unfolding e using False nge by simp
    qed
  qed
qed

lemma ilog2_unique:
  assumes "2 powi e \<le> x" "x < 2 powi (e + 1)"
  shows "ilog2 x = e"
proof -
  have "0 < (2::real) powi e" by simp
  with assms have pos: "0 < x" by linarith
  note b = ilog2_bounds [OF pos]
  from b assms have "(2::real) powi (ilog2 x) < 2 powi (e + 1)" "(2::real) powi e < 2 powi (ilog2 x + 1)"
    by linarith+
  then show ?thesis
    by (simp add: powi2_less_iff)
qed

lemma expo_ge: "emin \<le> expo emin x"
  by (simp add: expo_def)

lemma expo_minus: "expo emin (- x) = expo emin x"
  by (simp add: expo_def)

lemma abs_less_expo: "\<bar>x\<bar> < 2 powi (expo emin x + 1)"
proof (cases "x = 0")
  case True
  then show ?thesis by simp
next
  case False
  then have "\<bar>x\<bar> < 2 powi (ilog2 \<bar>x\<bar> + 1)"
    using ilog2_bounds [of "\<bar>x\<bar>"] by simp
  also have "\<dots> \<le> 2 powi (expo emin x + 1)"
    using False by (simp add: expo_def powi2_le_iff)
  finally show ?thesis .
qed

lemma expo_le_abs: "emin < expo emin x \<Longrightarrow> 2 powi (expo emin x) \<le> \<bar>x\<bar>"
  using ilog2_bounds [of "\<bar>x\<bar>"] by (auto simp: expo_def max_def split: if_splits)

lemma expo_le:
  assumes "\<bar>x\<bar> < 2 powi (e + 1)" "emin \<le> e"
  shows "expo emin x \<le> e"
proof (cases "emin < expo emin x")
  case True
  then have "2 powi (expo emin x) \<le> \<bar>x\<bar>" by (rule expo_le_abs)
  with assms have "(2::real) powi (expo emin x) < 2 powi (e + 1)" by linarith
  then show ?thesis by (simp add: powi2_less_iff)
next
  case False
  with assms show ?thesis by simp
qed

lemma rne_int: "rne (of_int n) = n"
  by (simp add: rne_def)

lemma rne_range: "\<lfloor>x\<rfloor> \<le> rne x \<and> rne x \<le> \<lfloor>x\<rfloor> + 1"
  by (simp add: rne_def Let_def)

lemma rne_err: "\<bar>of_int (rne x) - x\<bar> \<le> 1/2"
  unfolding rne_def Let_def by (auto split: if_splits)

lemma rne_mono: 
  assumes "x \<le> y" 
  shows "rne x \<le> rne y"
proof (cases "\<lfloor>x\<rfloor> = \<lfloor>y\<rfloor>")
  case True
  with assms show ?thesis
    unfolding rne_def Let_def by (auto split: if_splits)
next
  case False
  with assms have "\<lfloor>x\<rfloor> < \<lfloor>y\<rfloor>" 
    using floor_mono [of x y] by linarith
  with rne_range [of x] rne_range [of y] show ?thesis by linarith
qed

lemma rne_minus: "rne (- x) = - rne x"
proof (cases "x = of_int \<lfloor>x\<rfloor>")
  case True
  then obtain n where "x = of_int n" ..
  then have "- x = of_int (- n)" by simp
  then show ?thesis using \<open>x = of_int n\<close> by (simp only: rne_int)
next
  case False
  then have f: "\<lfloor>- x\<rfloor> = - \<lfloor>x\<rfloor> - 1"
    by (metis ceiling_altdef ceiling_def minus_diff_eq minus_minus uminus_add_conv_diff add.commute)
  show ?thesis
    unfolding rne_def Let_def f by (auto split: if_splits)
qed

lemma rne_0: "rne 0 = 0"
  using rne_int [of 0] by simp

lemma rne_scaled_le:
  assumes "x \<le> of_int n * 2 powi k"
  shows "of_int (rne (x / 2 powi k)) * 2 powi k \<le> of_int n * (2::real) powi k"
proof -
  have "x / 2 powi k \<le> of_int n" using assms by (simp add: field_simps)
  then have "rne (x / 2 powi k) \<le> rne (of_int n)" by (rule rne_mono)
  then have "rne (x / 2 powi k) \<le> n" by (simp only: rne_int)
  then have "(of_int (rne (x / 2 powi k)) :: real) \<le> of_int n" by simp
  then show ?thesis by (simp add: mult_right_mono)
qed

lemma rne_scaled_ge:
  assumes "of_int n * 2 powi k \<le> x"
  shows "of_int n * (2::real) powi k \<le> of_int (rne (x / 2 powi k)) * 2 powi k"
proof -
  have "of_int n \<le> x / 2 powi k" using assms by (simp add: field_simps)
  then have "rne (of_int n) \<le> rne (x / 2 powi k)" by (rule rne_mono)
  then have "n \<le> rne (x / 2 powi k)" by (simp only: rne_int)
  then have "(of_int n :: real) \<le> of_int (rne (x / 2 powi k))" by simp
  then show ?thesis by (simp add: mult_right_mono)
qed

lemma powi2_add_nat: "(2::real) powi (k + int n) = 2 ^ n * 2 powi k"
proof -
  have "(2::real) powi (k + int n) = 2 powi k * 2 powi (int n)"
    by (rule power_int_add) simp
  then show ?thesis by simp
qed

lemma q_up: "(2::real) powi (e + 1) = 2 ^ p * 2 powi (e - int p + 1)"
proof -
  have "(2::real) powi (e + 1) = 2 powi ((e - int p + 1) + int p)"
    by (rule arg_cong [where f = "\<lambda>n. 2 powi n"]) simp
  also have "\<dots> = 2 ^ p * 2 powi (e - int p + 1)" by (rule powi2_add_nat)
  finally show ?thesis .
qed

lemma q_lo:
  assumes "0 < p"
  shows "(2::real) powi e = 2 ^ (p - 1) * 2 powi (e - int p + 1)"
proof -
  have "(2::real) powi e = 2 powi ((e - int p + 1) + int (p - 1))"
    using assms by (intro arg_cong [where f = "\<lambda>n. 2 powi n"]) (simp add: of_nat_diff)
  also have "\<dots> = 2 ^ (p - 1) * 2 powi (e - int p + 1)" by (rule powi2_add_nat)
  finally show ?thesis .
qed

lemma rn_minus: "round_nearest p emin (- x) = - round_nearest p emin x"
  by (simp add: round_nearest_def expo_minus rne_minus)

lemma rn_zero: "round_nearest p emin 0 = 0"
  by (simp add: round_nearest_def rne_0)

lemma rn_nonneg:
  assumes "0 \<le> x"
  shows "0 \<le> round_nearest p emin x"
proof -
  from assms have "0 \<le> x / 2 powi (expo emin x - int p + 1)" by simp
  then have "rne 0 \<le> rne (x / 2 powi (expo emin x - int p + 1))" by (rule rne_mono)
  then show ?thesis by (simp add: round_nearest_def rne_0)
qed

lemma rn_le_pow: "round_nearest p emin x \<le> 2 powi (expo emin x + 1)"
proof -
  have "x \<le> \<bar>x\<bar>" by simp
  also have "\<dots> < 2 powi (expo emin x + 1)" by (rule abs_less_expo)
  finally have "x \<le> of_int (2 ^ p) * 2 powi (expo emin x - int p + 1)"
    using q_up [of "expo emin x" p] by simp
  then have "round_nearest p emin x \<le> of_int (2 ^ p) * 2 powi (expo emin x - int p + 1)"
    unfolding round_nearest_def by (rule rne_scaled_le)
  then show ?thesis using q_up [of "expo emin x" p] by simp
qed

lemma rn_ge_pow:
  assumes "emin < expo emin x" "0 \<le> x" "0 < p"
  shows "2 powi (expo emin x) \<le> round_nearest p emin x"
proof -
  have "2 powi (expo emin x) \<le> \<bar>x\<bar>" using assms(1) by (rule expo_le_abs)
  with assms(2) have "of_int (2 ^ (p - 1)) * 2 powi (expo emin x - int p + 1) \<le> x"
    using q_lo [OF assms(3), of "expo emin x"] by simp
  then have "of_int (2 ^ (p - 1)) * 2 powi (expo emin x - int p + 1) \<le> round_nearest p emin x"
    unfolding round_nearest_def by (rule rne_scaled_ge)
  then show ?thesis using q_lo [OF assms(3), of "expo emin x"] by simp
qed

lemma rn_mono_nonneg:
  assumes "0 \<le> x" "x \<le> y" "0 < p"
  shows "round_nearest p emin x \<le> round_nearest p emin y"
proof -
  have "\<bar>x\<bar> \<le> \<bar>y\<bar>" using assms by simp
  also have "\<dots> < 2 powi (expo emin y + 1)" by (rule abs_less_expo)
  finally have le: "expo emin x \<le> expo emin y" by (rule expo_le) (rule expo_ge)
  show ?thesis
  proof (cases "expo emin x = expo emin y")
    case True
    have "x / 2 powi (expo emin x - int p + 1) \<le> y / 2 powi (expo emin x - int p + 1)"
      using assms by (simp add: divide_right_mono)
    then have "rne (x / 2 powi (expo emin x - int p + 1))
        \<le> rne (y / 2 powi (expo emin x - int p + 1))"
      by (rule rne_mono)
    then show ?thesis
      unfolding round_nearest_def True [symmetric] by (simp add: mult_right_mono)
  next
    case False
    with le have lt: "expo emin x < expo emin y" by simp
    have "round_nearest p emin x \<le> 2 powi (expo emin x + 1)" by (rule rn_le_pow)
    also have "\<dots> \<le> 2 powi (expo emin y)" using lt by (simp add: powi2_le_iff)
    also have "\<dots> \<le> round_nearest p emin y"
    proof (rule rn_ge_pow)
      show "emin < expo emin y" using lt expo_ge [of emin x] by linarith
      show "0 \<le> y" using assms by simp
      show "0 < p" by (rule assms)
    qed
    finally show ?thesis .
  qed
qed

lemma rn_mono:
  assumes "x \<le> y" "0 < p"
  shows "round_nearest p emin x \<le> round_nearest p emin y"
proof (cases "0 \<le> x")
  case True
  then show ?thesis using assms by (rule rn_mono_nonneg)
next
  case False
  note xneg = this
  show ?thesis
  proof (cases "0 \<le> y")
    case True
    have "0 \<le> round_nearest p emin (- x)" using xneg by (intro rn_nonneg) simp
    then have "round_nearest p emin x \<le> 0" by (simp add: rn_minus)
    also have "0 \<le> round_nearest p emin y" using True by (rule rn_nonneg)
    finally show ?thesis .
  next
    case False
    then have "round_nearest p emin (- y) \<le> round_nearest p emin (- x)"
      using assms by (intro rn_mono_nonneg) simp_all
    then show ?thesis by (simp add: rn_minus)
  qed
qed

lemma rn_grid:
  assumes m: "\<bar>m\<bar> \<le> 2 ^ p" and k: "emin - int p + 1 \<le> k" and p: "0 < p"
  shows "round_nearest p emin (of_int m * 2 powi k) = of_int m * 2 powi k"
proof -
  define x :: real where "x = of_int m * 2 powi k"
  define d where "d = expo emin x - int p + 1"
  have "\<exists>n. x = of_int n * 2 powi d"
  proof (cases "d \<le> k")
    case True
    have "(2::real) powi k = 2 powi (d + int (nat (k - d)))" using True by simp
    also have "\<dots> = 2 ^ nat (k - d) * 2 powi d" by (rule powi2_add_nat)
    finally have "x = of_int (m * 2 ^ nat (k - d)) * 2 powi d"
      by (simp add: x_def)
    then show ?thesis ..
  next
    case False
    then have dk: "k + 1 \<le> d" by simp
    then have "emin < expo emin x" using k by (simp add: d_def)
    then have "2 powi (expo emin x) \<le> \<bar>x\<bar>" by (rule expo_le_abs)
    also have "\<bar>x\<bar> = \<bar>of_int m\<bar> * 2 powi k" by (simp add: x_def abs_mult)
    also have "\<dots> \<le> 2 ^ p * 2 powi k"
    proof (rule mult_right_mono)
      have "(of_int \<bar>m\<bar> :: real) \<le> of_int (2 ^ p)" using m by (simp only: of_int_le_iff)
      then show "\<bar>of_int m :: real\<bar> \<le> 2 ^ p" by simp
    qed simp
    also have "\<dots> = 2 powi (k + int p)" by (rule powi2_add_nat [symmetric])
    finally have "expo emin x \<le> k + int p" by (simp only: powi2_le_iff)
    with dk have e: "expo emin x = k + int p" and d: "d = k + 1" by (simp_all add: d_def)
    have "2 powi (k + int p) \<le> \<bar>x\<bar>"
      using \<open>2 powi (expo emin x) \<le> \<bar>x\<bar>\<close> by (simp add: e)
    then have "2 ^ p * 2 powi k \<le> \<bar>of_int m\<bar> * (2::real) powi k"
      by (simp add: x_def abs_mult powi2_add_nat)
    then have "(2 ^ p :: real) \<le> \<bar>of_int m\<bar>" by simp
    then have "(of_int (2 ^ p) :: real) \<le> of_int \<bar>m\<bar>" by simp
    then have "2 ^ p \<le> \<bar>m\<bar>" by (simp only: of_int_le_iff)
    with m have mm: "m = 2 ^ p \<or> m = - (2 ^ p)" by linarith
    have pp: "(2::int) ^ p = 2 * 2 ^ (p - 1)" using p by (cases p) simp_all
    have "m = 2 * (m div 2)" using mm pp by auto
    then have "of_int m = 2 * (of_int (m div 2) :: real)"
      by (metis of_int_mult of_int_numeral)
    then have "x = of_int (m div 2) * 2 powi d"
      by (simp add: x_def d powi2_Suc)
    then show ?thesis ..
  qed
  then obtain n where n: "x = of_int n * 2 powi d" ..
  have "round_nearest p emin x = of_int (rne (x / 2 powi d)) * 2 powi d"
    by (simp add: round_nearest_def d_def)
  also have "x / 2 powi d = of_int n" by (simp add: n)
  also have "of_int (rne (of_int n)) * 2 powi d = x" by (simp only: rne_int n)
  finally show ?thesis by (simp add: x_def)
qed

lemma rn_form:
  "\<exists>m. \<bar>m\<bar> \<le> 2 ^ p \<and> round_nearest p emin x = of_int m * 2 powi (expo emin x - int p + 1)"
proof -
  define q :: real where "q = 2 powi (expo emin x - int p + 1)"
  have q: "0 < q" by (simp add: q_def)
  have "\<bar>x\<bar> \<le> 2 ^ p * q"
    using abs_less_expo [of x emin] q_up [of "expo emin x" p] by (simp add: q_def)
  then have "\<bar>x\<bar> / q \<le> 2 ^ p" using q by (simp add: field_simps)
  then have "\<bar>x / q\<bar> \<le> 2 ^ p" using q by simp
  then have "x / q \<le> 2 ^ p \<and> - (2 ^ p) \<le> x / q"
    unfolding abs_le_iff by linarith
  then have "x / q \<le> of_int (2 ^ p)" "of_int (- (2 ^ p)) \<le> x / q"
    by simp_all
  then have "rne (x / q) \<le> rne (of_int (2 ^ p))" "rne (of_int (- (2 ^ p))) \<le> rne (x / q)"
    by (simp_all only: rne_mono)
  then have "\<bar>rne (x / q)\<bar> \<le> 2 ^ p"
    by (simp only: rne_int)
  then show ?thesis unfolding round_nearest_def q_def by blast
qed

lemma rn_idem:
  assumes "0 < p"
  shows "round_nearest p emin (round_nearest p emin x) = round_nearest p emin x"
proof -
  obtain m where "\<bar>m\<bar> \<le> 2 ^ p"
    "round_nearest p emin x = of_int m * 2 powi (expo emin x - int p + 1)"
    using rn_form by blast
  moreover have "emin - int p + 1 \<le> expo emin x - int p + 1" using expo_ge [of emin x] by simp
  ultimately show ?thesis using rn_grid [OF _ _ assms] by simp
qed

lemma rn_err: "\<bar>round_nearest p emin x - x\<bar> \<le> 2 powi (expo emin x - int p)"
proof -
  define q :: real where "q = 2 powi (expo emin x - int p + 1)"
  have q: "0 < q" by (simp add: q_def)
  have "\<bar>of_int (rne (x / q)) - x / q\<bar> \<le> 1/2" by (rule rne_err)
  then have "\<bar>of_int (rne (x / q)) - x / q\<bar> * q \<le> 1/2 * q"
    using q by (intro mult_right_mono) simp_all
  also have "\<bar>of_int (rne (x / q)) - x / q\<bar> * q = \<bar>(of_int (rne (x / q)) - x / q) * q\<bar>"
    using q by (simp add: abs_mult)
  also have "(of_int (rne (x / q)) - x / q) * q = of_int (rne (x / q)) * q - x"
    using q by (simp add: field_simps)
  also have "1/2 * q = 2 powi (expo emin x - int p)"
    using powi2_Suc [of "expo emin x - int p"] by (simp add: q_def)
  finally show ?thesis by (simp add: round_nearest_def q_def)
qed

lemma rn_err_le:
  assumes "\<bar>x\<bar> < 2 powi (e + 1)" "emin \<le> e"
  shows "\<bar>round_nearest p emin x - x\<bar> \<le> 2 powi (e - int p)"
proof -
  have "expo emin x \<le> e" using assms by (rule expo_le)
  then have "(2::real) powi (expo emin x - int p) \<le> 2 powi (e - int p)"
    by (simp add: powi2_le_iff)
  with rn_err [of p emin x] show ?thesis by linarith
qed

lemma fl_minus: "fl (- x) = - fl x"
  by (simp add: fl_def rn_minus)

lemma fl_zero: "fl 0 = 0"
  by (simp add: fl_def rn_zero)

lemma fl_nonneg: "0 \<le> x \<Longrightarrow> 0 \<le> fl x"
  by (simp add: fl_def rn_nonneg)

lemma fl_mono: "x \<le> y \<Longrightarrow> fl x \<le> fl y"
  by (simp add: fl_def rn_mono)

lemma fl_grid:
  assumes "\<bar>m\<bar> \<le> 16777216" "-149 \<le> k"
  shows "fl (of_int m * 2 powi k) = of_int m * 2 powi k"
  unfolding fl_def using assms by (intro rn_grid) simp_all

lemma fl_idem: "fl (fl x) = fl x"
  by (simp add: fl_def rn_idem)

lemma fl_of_int: "\<bar>n\<bar> \<le> 16777216 \<Longrightarrow> fl (of_int n) = of_int n"
  using fl_grid [of n 0] by simp

lemma fl_one: "fl 1 = 1"
  using fl_of_int [of 1] by simp

lemma fl_err_le:
  assumes "\<bar>x\<bar> < 2 powi (e + 1)" "-126 \<le> e"
  shows "\<bar>fl x - x\<bar> \<le> 2 powi (e - 24)"
  unfolding fl_def using rn_err_le [OF assms, of 24] by simp

lemma fl64_nonneg: "0 \<le> x \<Longrightarrow> 0 \<le> fl64 x"
  by (simp add: fl64_def rn_nonneg)

lemma fl64_mono: "x \<le> y \<Longrightarrow> fl64 x \<le> fl64 y"
  by (simp add: fl64_def rn_mono)

lemma fl64_grid:
  assumes "\<bar>m\<bar> \<le> 9007199254740992" "-1074 \<le> k"
  shows "fl64 (of_int m * 2 powi k) = of_int m * 2 powi k"
  unfolding fl64_def using assms by (intro rn_grid) simp_all

lemma fl64_of_int: "\<bar>n\<bar> \<le> 9007199254740992 \<Longrightarrow> fl64 (of_int n) = of_int n"
  using fl64_grid [of n 0] by simp

lemma fl64_err_le:
  assumes "\<bar>x\<bar> < 2 powi (e + 1)" "-1022 \<le> e"
  shows "\<bar>fl64 x - x\<bar> \<le> 2 powi (e - 53)"
  unfolding fl64_def using rn_err_le [OF assms, of 53] by simp

lemma is_f32_fl: "is_f32 (fl x)"
  by (simp add: is_f32_def fl_idem)

lemma is_f32_0: "is_f32 0"
  by (simp add: is_f32_def fl_zero)

lemma is_f32_1: "is_f32 1"
  by (simp add: is_f32_def fl_one)

lemma fl_le_1: "x \<le> 1 \<Longrightarrow> fl x \<le> 1"
  using fl_mono [of x 1] by (simp add: fl_one)

lemma fl_tie_1: "fl (1 + 2 powi (-24)) = 1"
  by (simp add: f32_eval)

lemma fl_le_1_tie: "x \<le> 1 + 2 powi (-24) \<Longrightarrow> fl x \<le> 1"
  using fl_mono [of x "1 + 2 powi (-24)"] by (simp only: fl_tie_1)

lemma fl_err_unit: 
  assumes "\<bar>x\<bar> < 1" 
  shows "\<bar>fl x - x\<bar> \<le> 2 powi (-25)"
  using fl_err_le [of x "-1"] assms by simp

lemma fl_err_two: 
  assumes "\<bar>x\<bar> < 2" 
  shows "\<bar>fl x - x\<bar> \<le> 2 powi (-24)"
  using fl_err_le [of x 0] assms by simp

lemma smoothstep_le_1:
  fixes t :: real
  assumes "0 \<le> t" "t \<le> 1"
  shows "t * t * (3 - 2 * t) \<le> 1"
proof -
  have "0 \<le> (1 - t) * (1 - t) * (1 + 2 * t)"
    using assms by (intro mult_nonneg_nonneg) simp_all
  also have "(1 - t) * (1 - t) * (1 + 2 * t) = 1 - t * t * (3 - 2 * t)"
    by (simp add: algebra_simps)
  finally show ?thesis by simp
qed

lemma f32_half_grid:
  assumes f: "is_f32 t" and lo: "1/2 \<le> t" and hi: "t < 1"
  shows "\<exists>m. t = of_int m * 2 powi (-24) \<and> 8388608 \<le> m \<and> m < 16777216"
proof -
  have "ilog2 \<bar>t\<bar> = -1"
    using lo hi by (intro ilog2_unique) (simp_all add: power_int_minus)
  then have e: "expo (-126) t = -1" using lo by (simp add: expo_def)
  define m where "m = rne (t / 2 powi (-24))"
  have t: "t = of_int m * 2 powi (-24)"
    using f unfolding is_f32_def fl_def round_nearest_def e m_def by simp
  have "of_int m = t * 16777216" by (subst t) (simp add: power_int_minus)
  with lo hi have "(8388608::real) \<le> of_int m" "of_int m < (16777216::real)" by simp_all
  then have "8388608 \<le> m" "m < 16777216" by linarith+
  with t show ?thesis by blast
qed

lemma scurve_le_1:
  assumes f: "is_f32 t" and lo: "0 \<le> t" and hi: "t \<le> 1"
  shows "fmul (fmul t t) (fsub 3 (fmul 2 t)) \<le> 1"
proof -
  define a where "a = fl (t * t)"
  define b where "b = fl (3 - fl (2 * t))"
  have a0: "0 \<le> a" unfolding a_def using lo by (intro fl_nonneg) simp
  have "fl (2 * t) \<le> fl 2" using hi by (intro fl_mono) simp
  also have "fl 2 = 2" using fl_of_int [of 2] by simp
  finally have c2: "fl (2 * t) \<le> 2" .
  have c0: "0 \<le> fl (2 * t)" using lo by (intro fl_nonneg) simp
  have b0: "0 \<le> b" unfolding b_def using c2 by (intro fl_nonneg) simp
  have "b \<le> fl 3" unfolding b_def using c0 by (intro fl_mono) simp
  also have "fl 3 = 3" using fl_of_int [of 3] by simp
  finally have b3: "b \<le> 3" .
  have "a * b \<le> 1 + 2 powi (-24)"
  proof (cases "t < 1/2")
    case True
    have "t * t \<le> (1/2) * (1/2)" using True lo by (intro mult_mono) simp_all
    then have "a \<le> fl (1/4)" unfolding a_def by (intro fl_mono) simp
    also have "fl (1/4) = 1/4" using fl_grid [of 1 "-2"] by (simp add: power_int_minus)
    finally have "a \<le> 1/4" .
    then have "a * b \<le> (1/4) * 3" using b3 a0 b0 by (intro mult_mono) simp_all
    then show ?thesis by (simp add: power_int_minus)
  next
    case False
    note ge = this
    show ?thesis
    proof (cases "t = 1")
      case True
      then show ?thesis
        using fl_of_int [of 1] fl_of_int [of 2] by (simp add: a_def b_def power_int_minus)
    next
      case False
      with hi have "t < 1" by simp
      with f ge obtain m where t: "t = of_int m * 2 powi (-24)" 
        and m: "8388608 \<le> m" "m < 16777216"
        using f32_half_grid [of t] by auto
      have tt: "2 * t = of_int m * 2 powi (-23)"
        by (simp add: t power_int_minus)
      have c: "fl (2 * t) = 2 * t"
        unfolding tt using m by (intro fl_grid) simp_all
      have bb: "3 - 2 * t = of_int (25165824 - m) * 2 powi (-23)"
        by (simp add: t power_int_minus)
      have "fl (3 - 2 * t) = 3 - 2 * t"
        unfolding bb using m by (intro fl_grid) simp_all
      then have b: "b = 3 - 2 * t" by (simp add: b_def c)
      have "\<bar>t * t\<bar> < 1" 
        using \<open>t < 1\<close> lo mult_strict_mono [of t 1 t 1] by (simp add: abs_mult)
      then have "\<bar>a - t * t\<bar> \<le> 2 powi (-25)" unfolding a_def by (rule fl_err_unit)
      then have a: "a \<le> t * t + 2 powi (-25)" by linarith
      have bpos: "0 \<le> 3 - 2 * t" "3 - 2 * t \<le> 2" using hi ge by simp_all
      have "a * b \<le> (t * t + 2 powi (-25)) * (3 - 2 * t)"
        unfolding b using a bpos by (intro mult_right_mono) simp_all
      also have "\<dots> = t * t * (3 - 2 * t) + 2 powi (-25) * (3 - 2 * t)"
        by (simp add: algebra_simps)
      also have "\<dots> \<le> 1 + 2 powi (-25) * 2"
        using smoothstep_le_1 [OF lo hi] bpos 
        by (intro add_mono mult_left_mono) simp_all
      also have "\<dots> = 1 + 2 powi (-24)" by (simp add: power_int_minus)
      finally show ?thesis .
    qed
  qed
  then have "fl (a * b) \<le> 1" by (rule fl_le_1_tie)
  then show ?thesis by (simp add: fmul_def fsub_def a_def b_def)
qed

lemma scurve_ge_0:
  assumes lo: "0 \<le> t" and hi: "t \<le> 1"
  shows "0 \<le> fmul (fmul t t) (fsub 3 (fmul 2 t))"
proof -
  have "fl (2 * t) \<le> fl 2" using hi by (intro fl_mono) simp
  also have "fl 2 = 2" using fl_of_int [of 2] by simp
  finally have "0 \<le> fl (3 - fl (2 * t))" by (intro fl_nonneg) simp
  moreover have "0 \<le> fl (t * t)" using lo by (intro fl_nonneg) simp
  ultimately show ?thesis
    unfolding fmul_def fsub_def by (intro fl_nonneg) simp
qed

lemma clampf_unit: "0 \<le> clampf t 0 1 \<and> clampf t 0 1 \<le> 1"
  by (simp add: clampf_def)

lemma is_f32_clampf: "is_f32 t \<Longrightarrow> is_f32 (clampf t 0 1)"
  by (simp add: clampf_def is_f32_0 is_f32_1)

lemma pump_release_range:
  assumes lo: "0 \<le> t" and hi: "t \<le> 1"
  shows "0 \<le> fsub 1 (fmul (fmul (fsub 1 t) (fsub 1 t)) (fsub 1 t)) \<and>
         fsub 1 (fmul (fmul (fsub 1 t) (fsub 1 t)) (fsub 1 t)) \<le> 1"
proof -
  define i where "i = fl (1 - t)"
  have i0: "0 \<le> i" unfolding i_def using hi by (intro fl_nonneg) simp
  have i1: "i \<le> 1" unfolding i_def using lo by (intro fl_le_1) simp
  have ii0: "0 \<le> fl (i * i)" using i0 by (intro fl_nonneg) simp
  have "i * i \<le> 1 * 1" using i0 i1 by (intro mult_mono) simp_all
  then have ii1: "fl (i * i) \<le> 1" by (intro fl_le_1) simp
  have iii0: "0 \<le> fl (fl (i * i) * i)" using ii0 i0 by (intro fl_nonneg) simp
  have "fl (i * i) * i \<le> 1 * 1" using ii0 ii1 i0 i1 by (intro mult_mono) simp_all
  then have iii1: "fl (fl (i * i) * i) \<le> 1" by (intro fl_le_1) simp
  have "0 \<le> fl (1 - fl (fl (i * i) * i))" using iii1 by (intro fl_nonneg) simp
  moreover have "fl (1 - fl (fl (i * i) * i)) \<le> 1" using iii0 by (intro fl_le_1) simp
  ultimately show ?thesis by (simp add: fsub_def fmul_def i_def)
qed

lemma shape_curve_range:
  assumes "is_f32 t"
  shows "0 \<le> shape_curve c t r \<and> shape_curve c t r \<le> 1"
proof -
  define u where "u = clampf t 0 1"
  have u: "0 \<le> u" "u \<le> 1" "is_f32 u"
    using clampf_unit [of t] is_f32_clampf [OF assms] by (simp_all add: u_def)
  have "u * u \<le> 1 * 1" using u by (intro mult_mono) simp_all
  then have e1: "fmul u u \<le> 1" unfolding fmul_def by (intro fl_le_1) simp
  have e0: "0 \<le> fmul u u" unfolding fmul_def using u by (intro fl_nonneg) simp
  show ?thesis
    using u e0 e1 scurve_le_1 [of u] scurve_ge_0 [of u] pump_release_range [of u]
    by (cases c) (simp_all add: shape_curve_def Let_def u_def [symmetric])
qed

section \<open>Properties of the engine\<close>

lemma create_fields:
  "channel (v2_create_instance d c) = 1"
  "trigger_note (v2_create_instance d c) = 36"
  "mode (v2_create_instance d c) = MODE_TRIGGER"
  "depth (v2_create_instance d c) = 1"
  "curve (v2_create_instance d c) = CURVE_LINEAR"
  "vel_sens (v2_create_instance d c) = 0"
  "phase (v2_create_instance d c) = PHASE_IDLE"
  "phase_pos (v2_create_instance d c) = 0"
  "phase_len (v2_create_instance d c) = 0"
  "vel_depth (v2_create_instance d c) = 0"
  "envelope (v2_create_instance d c) = 1"
  "active_notes (v2_create_instance d c) = 0"
  by (simp_all add: v2_create_instance_def)

lemma advance_config:
  "mode (advance_envelope s) = mode s"
  "vel_depth (advance_envelope s) = vel_depth s"
  "active_notes (advance_envelope s) = active_notes s"
  "depth (advance_envelope s) = depth s"
  "vel_sens (advance_envelope s) = vel_sens s"
  "curve (advance_envelope s) = curve s"
  "channel (advance_envelope s) = channel s"
  "trigger_note (advance_envelope s) = trigger_note s"
  "hold_samples (advance_envelope s) = hold_samples s"
  "release_samples (advance_envelope s) = release_samples s"
  "attack_samples (advance_envelope s) = attack_samples s"
  by (simp_all add: advance_envelope_def Let_def hold_samples_def release_samples_def
      attack_samples_def split: phase_t.split)

lemma start_attack_config:
  "mode (start_attack s) = mode s"
  "vel_depth (start_attack s) = vel_depth s"
  "active_notes (start_attack s) = active_notes s"
  "depth (start_attack s) = depth s"
  "vel_sens (start_attack s) = vel_sens s"
  "hold_samples (start_attack s) = hold_samples s"
  "release_samples (start_attack s) = release_samples s"
  "attack_samples (start_attack s) = attack_samples s"
  by (simp_all add: start_attack_def Let_def hold_samples_def release_samples_def
      attack_samples_def)

lemma start_release_config:
  "mode (start_release s) = mode s"
  "vel_depth (start_release s) = vel_depth s"
  "active_notes (start_release s) = active_notes s"
  "depth (start_release s) = depth s"
  "vel_sens (start_release s) = vel_sens s"
  "hold_samples (start_release s) = hold_samples s"
  "release_samples (start_release s) = release_samples s"
  "attack_samples (start_release s) = attack_samples s"
  by (simp_all add: start_release_def Let_def hold_samples_def release_samples_def
      attack_samples_def)

lemma on_midi_unfold:
  "ducker_on_midi inst msg =
     (if \<not> qualifies inst msg then inst
      else if is_note_on msg
      then start_attack (inst\<lparr>active_notes := active_notes inst + 1,
              vel_depth := fmul (depth inst) (velocity_scale (vel_sens inst) (msg ! 2))\<rparr>)
      else if is_note_off msg
      then (let inst' = (if active_notes inst > 0
                         then inst\<lparr>active_notes := active_notes inst - 1\<rparr> else inst)
            in if mode inst' = MODE_GATE \<and> active_notes inst' = 0 \<and>
                  (phase inst' = PHASE_HOLD \<or> phase inst' = PHASE_ATTACK)
               then start_release inst' else inst')
      else inst)"
  unfolding ducker_on_midi_def qualifies_def is_note_on_def is_note_off_def Let_def
  by (simp add: not_le)

lemma on_midi_note_on:
  assumes "qualifies inst msg" "is_note_on msg"
  shows "ducker_on_midi inst msg =
           start_attack (inst\<lparr>active_notes := active_notes inst + 1,
              vel_depth := fmul (depth inst) (velocity_scale (vel_sens inst) (msg ! 2))\<rparr>)"
  using assms by (simp add: on_midi_unfold)

lemma note_on_not_off: "is_note_on msg \<Longrightarrow> \<not> is_note_off msg"
  by (auto simp: is_note_on_def is_note_off_def)

lemma on_midi_note_off:
  assumes "qualifies inst msg" "is_note_off msg"
  shows "ducker_on_midi inst msg =
           (let inst' = (if active_notes inst > 0
                         then inst\<lparr>active_notes := active_notes inst - 1\<rparr> else inst)
            in if mode inst' = MODE_GATE \<and> active_notes inst' = 0 \<and>
                  (phase inst' = PHASE_HOLD \<or> phase inst' = PHASE_ATTACK)
               then start_release inst' else inst')"
proof -
  have "\<not> is_note_on msg" using assms(2) note_on_not_off by blast
  with assms show ?thesis by (simp add: on_midi_unfold)
qed

lemma on_midi_cases:
  "ducker_on_midi inst msg = inst \<or>
   (qualifies inst msg \<and> is_note_on msg) \<or> (qualifies inst msg \<and> is_note_off msg)"
  by (simp add: on_midi_unfold)

lemma on_midi_mode: "mode (ducker_on_midi inst msg) = mode inst"
  by (simp add: on_midi_unfold start_attack_config start_release_config Let_def)

lemma phase_inv_start_attack: "phase_inv (start_attack s)"
  by (auto simp: phase_inv_def start_attack_def Let_def)

lemma phase_inv_start_release: "phase_inv (start_release s)"
  by (auto simp: phase_inv_def start_release_def Let_def)

lemma phase_inv_active: "phase_inv (s\<lparr>active_notes := n\<rparr>) = phase_inv s"
  by (simp add: phase_inv_def)

lemma phase_inv_on_midi: 
  assumes "phase_inv s" 
  shows "phase_inv (ducker_on_midi s msg)"
proof -
  consider "ducker_on_midi s msg = s" | "qualifies s msg" "is_note_on msg"
    | "qualifies s msg" "is_note_off msg"
    using on_midi_cases [of s msg] by blast
  then show ?thesis
  proof cases
    case 1
    with assms show ?thesis by simp
  next
    case 2
    then show ?thesis by (simp add: on_midi_note_on phase_inv_start_attack)
  next
    case 3
    then show ?thesis
      using assms
      by (simp add: on_midi_note_off Let_def phase_inv_start_release phase_inv_active)
  qed
qed

lemma phase_inv_advance: "phase_inv s \<Longrightarrow> phase_inv (advance_envelope s)"
  by (cases "phase s") (auto simp: phase_inv_def advance_envelope_def Let_def)

lemma phase_inv_step: "phase_inv s \<Longrightarrow> phase_inv (step s ev)"
  by (cases ev) (simp_all add: phase_inv_on_midi phase_inv_advance)




lemma run_samples_0: "run_samples 0 s = s"
  by (simp add: run_samples_def)

lemma run_samples_Suc: "run_samples (Suc n) s = advance_envelope (run_samples n s)"
  by (simp add: run_samples_def)

lemma run_samples_Suc2: "run_samples (Suc n) s = run_samples n (advance_envelope s)"
  by (simp add: run_samples_def funpow_swap1)

lemma run_samples_add: "run_samples (m + n) s = run_samples m (run_samples n s)"
  by (simp add: run_samples_def funpow_add)

lemma advance_idle: "phase s = PHASE_IDLE \<Longrightarrow> advance_envelope s = s"
  by (simp add: advance_envelope_def)

lemma run_idle: "phase s = PHASE_IDLE \<Longrightarrow> run_samples n s = s"
  by (induction n) (simp_all add: run_samples_0 run_samples_Suc advance_idle)

lemma run_config:
  "mode (run_samples n s) = mode s"
  "vel_depth (run_samples n s) = vel_depth s"
  "active_notes (run_samples n s) = active_notes s"
  "hold_samples (run_samples n s) = hold_samples s"
  "release_samples (run_samples n s) = release_samples s"
  by (induction n) (simp_all add: run_samples_0 run_samples_Suc advance_config)

lemma phase_inv_run: "phase_inv s \<Longrightarrow> phase_inv (run_samples n s)"
  by (induction n) (simp_all add: run_samples_0 run_samples_Suc phase_inv_advance)

lemma idle_env_advance:
  assumes "phase s = PHASE_IDLE \<longrightarrow> envelope s = 1"
  shows "phase (advance_envelope s) = PHASE_IDLE \<longrightarrow> envelope (advance_envelope s) = 1"
  using assms by (cases "phase s") (simp_all add: advance_envelope_def Let_def)

lemma idle_env_run:
  assumes "phase s = PHASE_IDLE \<longrightarrow> envelope s = 1"
  shows "phase (run_samples n s) = PHASE_IDLE \<longrightarrow> envelope (run_samples n s) = 1"
  using assms
  by (induction n) (simp_all add: run_samples_0 run_samples_Suc idle_env_advance)

lemma remaining_idle: "phase s = PHASE_IDLE \<Longrightarrow> remaining s = 0"
  by (simp add: remaining_def)

lemma remaining_pos:
  assumes "phase_inv s" "mode s = MODE_TRIGGER" "phase s \<noteq> PHASE_IDLE"
  shows "1 \<le> remaining s"
  using assms by (cases "phase s") (auto simp: remaining_def phase_inv_def max_def)

lemma remaining_advance:
  assumes "mode s = MODE_TRIGGER" "phase_inv s" "phase s \<noteq> PHASE_IDLE"
  shows "remaining (advance_envelope s) = remaining s - 1"
proof (cases "phase s")
  case PHASE_IDLE
  with assms show ?thesis by simp
next
  case PHASE_ATTACK
  with assms show ?thesis
    by (simp add: remaining_def advance_envelope_def Let_def phase_inv_def
        hold_samples_def release_samples_def)
next
  case PHASE_HOLD
  with assms show ?thesis
    by (simp add: remaining_def advance_envelope_def Let_def phase_inv_def
        hold_samples_def release_samples_def)
next
  case PHASE_RELEASE
  with assms show ?thesis
    by (simp add: remaining_def advance_envelope_def Let_def phase_inv_def
        hold_samples_def release_samples_def)
qed

lemma run_remaining:
  assumes "mode s = MODE_TRIGGER" "phase_inv s"
  shows "int n \<le> remaining s \<Longrightarrow> remaining (run_samples n s) = remaining s - int n"
proof (induction n)
  case 0
  then show ?case by (simp add: run_samples_0)
next
  case (Suc n)
  then have r: "remaining (run_samples n s) = remaining s - int n" by simp
  with Suc.prems have "1 \<le> remaining (run_samples n s)" by simp
  then have "phase (run_samples n s) \<noteq> PHASE_IDLE"
    using remaining_idle [of "run_samples n s"] by auto
  then have "remaining (advance_envelope (run_samples n s)) = remaining (run_samples n s) - 1"
    using assms by (intro remaining_advance) (simp_all add: run_config phase_inv_run)
  with r show ?case by (simp add: run_samples_Suc)
qed

lemma reach_idle:
  assumes m: "mode s = MODE_TRIGGER" and inv: "phase_inv s"
    and env: "phase s = PHASE_IDLE \<longrightarrow> envelope s = 1"
    and n: "remaining s \<le> int n"
  shows "phase (run_samples n s) = PHASE_IDLE \<and> envelope (run_samples n s) = 1"
proof -
  have nonneg: "0 \<le> remaining s"
    using remaining_pos [OF inv m] remaining_idle [of s] by (cases "phase s = PHASE_IDLE") simp_all
  define r where "r = nat (remaining s)"
  have "remaining (run_samples r s) = remaining s - int r"
    using m inv by (rule run_remaining) (simp add: r_def nonneg)
  then have "remaining (run_samples r s) = 0" using nonneg by (simp add: r_def)
  then have idle: "phase (run_samples r s) = PHASE_IDLE"
    using remaining_pos [of "run_samples r s"] inv m
    by (cases "phase (run_samples r s) = PHASE_IDLE") (simp_all add: run_config phase_inv_run)
  have "n = (n - r) + r" using n nonneg by (simp add: r_def)
  then have "run_samples n s = run_samples (n - r) (run_samples r s)"
    using run_samples_add [of "n - r" r s] by simp
  also have "\<dots> = run_samples r s" using idle by (rule run_idle)
  finally show ?thesis using idle idle_env_run [OF env, of r] by simp
qed

lemma remaining_start_attack:
  assumes "mode s = MODE_TRIGGER"
  shows "remaining (start_attack s) =
           max 0 (attack_samples s) + max 0 (hold_samples s) + max 1 (release_samples s)"
  using assms
  by (simp add: remaining_def start_attack_def Let_def hold_samples_def release_samples_def
      attack_samples_def)

lemma start_attack_not_idle: "phase (start_attack s) \<noteq> PHASE_IDLE"
  by (simp add: start_attack_def Let_def)

lemma fsub_le_1: "0 \<le> d \<Longrightarrow> fsub 1 d \<le> 1"
  unfolding fsub_def by (intro fl_le_1) simp

lemma fmul_unit_le:
  assumes "0 \<le> d" "is_f32 d" "0 \<le> sh" "sh \<le> 1"
  shows "0 \<le> fmul d sh \<and> fmul d sh \<le> d"
proof -
  have "d * sh \<le> d * 1" using assms by (intro mult_left_mono) simp_all
  then have "fl (d * sh) \<le> fl d" by (intro fl_mono) simp
  moreover have "0 \<le> fl (d * sh)" using assms by (intro fl_nonneg) simp
  ultimately show ?thesis using assms(2) by (simp add: fmul_def is_f32_def)
qed

lemma attack_value_bounds:
  assumes "0 \<le> d" "is_f32 d" "0 \<le> sh" "sh \<le> 1"
  shows "fsub 1 d \<le> fsub 1 (fmul d sh) \<and> fsub 1 (fmul d sh) \<le> 1"
proof -
  note b = fmul_unit_le [OF assms]
  have "fl (1 - d) \<le> fl (1 - fmul d sh)" using b by (intro fl_mono) simp
  moreover have "fl (1 - fmul d sh) \<le> 1" using b by (intro fl_le_1) simp
  ultimately show ?thesis by (simp add: fsub_def)
qed

lemma release_value_bounds:
  assumes "0 \<le> d" "d \<le> 5/2" "is_f32 d" "0 \<le> sh" "sh \<le> 1"
  shows "fsub 1 d \<le> fadd (fsub 1 d) (fmul d sh) \<and> fadd (fsub 1 d) (fmul d sh) \<le> 1"
proof -
  note b = fmul_unit_le [OF assms(1,3,4,5)]
  have "fl (fl (1 - d)) \<le> fl (fl (1 - d) + fmul d sh)" using b by (intro fl_mono) simp
  then have lo: "fl (1 - d) \<le> fl (fl (1 - d) + fmul d sh)" by (simp only: fl_idem)
  have "\<bar>1 - d\<bar> < 2" using assms by simp
  then have "\<bar>fl (1 - d) - (1 - d)\<bar> \<le> 2 powi (-24)" by (rule fl_err_two)
  then have "fl (1 - d) + fmul d sh \<le> 1 + 2 powi (-24)" using b by linarith
  then have "fl (fl (1 - d) + fmul d sh) \<le> 1" by (rule fl_le_1_tie)
  with lo show ?thesis by (simp add: fsub_def fadd_def)
qed

lemma advance_gain_bounds:
  assumes d: "0 \<le> vel_depth s" "vel_depth s \<le> 5/2" "is_f32 (vel_depth s)"
    and inv: "phase_inv s"
    and env: "phase s = PHASE_IDLE \<longrightarrow> envelope s = 1"
  shows "fsub 1 (vel_depth s) \<le> envelope (advance_envelope s) \<and>
         envelope (advance_envelope s) \<le> 1"
proof (cases "phase s")
  case PHASE_IDLE
  with env d(1) show ?thesis by (simp add: advance_idle fsub_le_1)
next
  case PHASE_HOLD
  with d(1) show ?thesis by (simp add: advance_envelope_def Let_def fsub_le_1)
next
  case PHASE_ATTACK
  define sh where "sh = shape_curve (curve s) (fdiv (i2f (phase_pos s)) (i2f (phase_len s))) False"
  have "0 \<le> sh \<and> sh \<le> 1"
    unfolding sh_def fdiv_def by (rule shape_curve_range) (rule is_f32_fl)
  then have b: "fsub 1 (vel_depth s) \<le> fsub 1 (fmul (vel_depth s) sh)"
       "fsub 1 (fmul (vel_depth s) sh) \<le> 1"
    using attack_value_bounds [of "vel_depth s" sh] d by simp_all
  have "0 < phase_len s" using inv PHASE_ATTACK by (simp add: phase_inv_def)
  with PHASE_ATTACK b d(1) show ?thesis
    by (simp add: advance_envelope_def Let_def fsub_le_1 sh_def [symmetric])
next
  case PHASE_RELEASE
  define sh where "sh = shape_curve (curve s) (fdiv (i2f (phase_pos s)) (i2f (phase_len s))) True"
  have "0 \<le> sh \<and> sh \<le> 1"
    unfolding sh_def fdiv_def by (rule shape_curve_range) (rule is_f32_fl)
  then have b: "fsub 1 (vel_depth s) \<le> fadd (fsub 1 (vel_depth s)) (fmul (vel_depth s) sh)"
       "fadd (fsub 1 (vel_depth s)) (fmul (vel_depth s) sh) \<le> 1"
    using release_value_bounds [of "vel_depth s" sh] d by simp_all
  have "0 \<le> phase_pos s" using inv PHASE_RELEASE by (simp add: phase_inv_def)
  with PHASE_RELEASE b d(1) show ?thesis
    by (simp add: advance_envelope_def Let_def fsub_le_1 sh_def [symmetric])
qed

lemma gain_at_bounds:
  assumes d: "0 \<le> vel_depth s" "vel_depth s \<le> 5/2" "is_f32 (vel_depth s)"
    and inv: "phase_inv s"
    and env: "phase s = PHASE_IDLE \<longrightarrow> envelope s = 1"
  shows "fsub 1 (vel_depth s) \<le> gain_at s k \<and> gain_at s k \<le> 1"
proof -
  have "fsub 1 (vel_depth (run_samples k s)) \<le> envelope (advance_envelope (run_samples k s)) \<and>
        envelope (advance_envelope (run_samples k s)) \<le> 1"
    using d inv idle_env_run [OF env, of k]
    by (intro advance_gain_bounds) (simp_all add: run_config phase_inv_run)
  then show ?thesis by (simp add: gain_at_def run_samples_Suc run_config)
qed

lemma uint8_bound: "uint (v::8 word) \<le> 255"
  using uint_bounded [of v] by simp

lemma velocity_ratio_bounds:
  "0 \<le> fdiv (i2f (uint (v::8 word))) 127 \<and> fdiv (i2f (uint v)) 127 \<le> 201/100"
proof -
  have i: "i2f (uint v) = of_int (uint v)"
    unfolding i2f_def using uint8_bound [of v] by (intro fl_of_int) simp
  have "(of_int (uint v) :: real) \<le> of_int 255"
    by (rule iffD2 [OF of_int_le_iff]) (rule uint8_bound)
  then have "(of_int (uint v) :: real) \<le> 255" by simp
  then have "fl (of_int (uint v) / 127) \<le> fl (255 / 127)" by (intro fl_mono) simp
  also have "fl (255 / 127) \<le> 201/100" by (simp add: f32_eval)
  finally have "fl (of_int (uint v) / 127) \<le> 201/100" .
  moreover have "(0::real) \<le> of_int (uint v)"
    by (rule iffD2 [OF of_int_0_le_iff]) simp
  then have "0 \<le> fl (of_int (uint v) / 127)" by (intro fl_nonneg) simp
  ultimately show ?thesis by (simp add: fdiv_def i)
qed

lemma velocity_ratio_le_1:
  assumes "uint (v::8 word) \<le> 127"
  shows "fdiv (i2f (uint v)) 127 \<le> 1"
proof -
  have i: "i2f (uint v) = of_int (uint v)"
    unfolding i2f_def using assms by (intro fl_of_int) simp
  have "(of_int (uint v) :: real) \<le> of_int 127"
    by (rule iffD2 [OF of_int_le_iff]) (rule assms)
  then have "(of_int (uint v) :: real) \<le> 127" by simp
  then have "fl (of_int (uint v) / 127) \<le> 1" by (intro fl_le_1) simp
  then show ?thesis by (simp add: fdiv_def i)
qed

lemma velocity_scale_bounds:
  assumes "0 \<le> vs" "vs \<le> 1"
  shows "0 \<le> velocity_scale vs v \<and> velocity_scale vs v \<le> 5/2"
proof (cases "0 < vs")
  case False
  then show ?thesis by (simp add: velocity_scale_def)
next
  case True
  define r where "r = fdiv (i2f (uint v)) 127"
  have r: "0 \<le> r" "r \<le> 201/100" using velocity_ratio_bounds [of v] by (simp_all add: r_def)
  have a0: "0 \<le> fl (1 - vs)" using assms by (intro fl_nonneg) simp
  have a1: "fl (1 - vs) \<le> 1" using assms by (intro fl_le_1) simp
  have b0: "0 \<le> fl (vs * r)" using assms r by (intro fl_nonneg) simp
  have "vs * r \<le> 1 * (201/100)" using assms r by (intro mult_mono) simp_all
  then have "fl (vs * r) \<le> fl (201/100)" by (intro fl_mono) simp
  also have "fl (201/100) \<le> 3/2 + 1" by (simp add: f32_eval)
  finally have b1: "fl (vs * r) \<le> 3/2 + 1" .
  have "\<bar>vs * r\<bar> < 4" using \<open>vs * r \<le> 1 * (201/100)\<close> assms r by (simp add: abs_mult)
  then have "\<bar>fl (vs * r) - vs * r\<bar> \<le> 2 powi (-23)"
    using fl_err_le [of "vs * r" 1] by simp
  then have b2: "fl (vs * r) \<le> vs * r + 2 powi (-23)" by linarith
  have "\<bar>1 - vs\<bar> < 1" using True assms by simp
  then have "\<bar>fl (1 - vs) - (1 - vs)\<bar> \<le> 2 powi (-25)" by (rule fl_err_unit)
  then have a2: "fl (1 - vs) \<le> 1 - vs + 2 powi (-25)" by linarith
  have "vs * r \<le> vs * (201/100)" using assms r by (intro mult_left_mono) simp_all
  then have "1 - vs + vs * r \<le> 201/100" using assms by simp
  with a2 b2 have "fl (1 - vs) + fl (vs * r) \<le> 201/100 + 2 powi (-25) + 2 powi (-23)"
    by linarith
  also have "\<dots> \<le> 5/2" by (simp add: power_int_minus)
  finally have "fl (fl (1 - vs) + fl (vs * r)) \<le> fl (5/2)" by (rule fl_mono)
  also have "fl (5/2) = 5/2" using fl_grid [of 5 "-1"] by (simp add: power_int_minus)
  finally have "fl (fl (1 - vs) + fl (vs * r)) \<le> 5/2" .
  moreover have "0 \<le> fl (fl (1 - vs) + fl (vs * r))" using a0 b0 by (intro fl_nonneg) simp
  ultimately show ?thesis
    using True by (simp add: velocity_scale_def fadd_def fsub_def fmul_def r_def)
qed

lemma velocity_scale_le_1:
  assumes "0 \<le> vs" "vs \<le> 1" "is_f32 vs" "uint v \<le> 127"
  shows "velocity_scale vs v \<le> 1"
proof (cases "0 < vs")
  case False
  then show ?thesis by (simp add: velocity_scale_def)
next
  case True
  define r where "r = fdiv (i2f (uint v)) 127"
  have r: "0 \<le> r" "r \<le> 1" 
    using velocity_ratio_bounds [of v] velocity_ratio_le_1 [OF assms(4)] by (simp_all add: r_def)
  have b: "fmul vs r \<le> vs" using fmul_unit_le [of vs r] assms r by simp
  have "\<bar>1 - vs\<bar> < 1" using True assms by simp
  then have "\<bar>fl (1 - vs) - (1 - vs)\<bar> \<le> 2 powi (-25)" by (rule fl_err_unit)
  then have "fl (1 - vs) \<le> 1 - vs + 2 powi (-25)" by linarith
  with b have "fl (1 - vs) + fmul vs r \<le> 1 + 2 powi (-25)" by linarith
  also have "\<dots> \<le> 1 + 2 powi (-24)" by (simp add: power_int_minus)
  finally have "fl (fl (1 - vs) + fmul vs r) \<le> 1" by (rule fl_le_1_tie)
  then show ?thesis
    using True by (simp add: velocity_scale_def fadd_def fsub_def r_def)
qed

lemma note_depth_bounds:
  assumes "0 \<le> dp" "dp \<le> 1" "0 \<le> vs" "vs \<le> 1"
  shows "0 \<le> fmul dp (velocity_scale vs v) \<and> fmul dp (velocity_scale vs v) \<le> 5/2 \<and>
         is_f32 (fmul dp (velocity_scale vs v))"
proof -
  note s = velocity_scale_bounds [OF assms(3,4), of v]
  have "dp * velocity_scale vs v \<le> 1 * (5/2)" using assms s by (intro mult_mono) simp_all
  then have "fl (dp * velocity_scale vs v) \<le> fl (5/2)" by (intro fl_mono) simp
  also have "fl (5/2) = 5/2" using fl_grid [of 5 "-1"] by (simp add: power_int_minus)
  finally have "fl (dp * velocity_scale vs v) \<le> 5/2" .
  moreover have "0 \<le> fl (dp * velocity_scale vs v)" using assms s by (intro fl_nonneg) simp
  ultimately show ?thesis by (simp add: fmul_def is_f32_fl)
qed

lemma note_depth_le_1:
  assumes "0 \<le> dp" "dp \<le> 1" "0 \<le> vs" "vs \<le> 1" "is_f32 vs" "uint v \<le> 127"
  shows "fmul dp (velocity_scale vs v) \<le> 1"
proof -
  note s = velocity_scale_bounds [OF assms(3,4), of v] velocity_scale_le_1 [OF assms(3,4,5,6)]
  have "dp * velocity_scale vs v \<le> 1 * 1" using assms s by (intro mult_mono) simp_all
  then show ?thesis unfolding fmul_def by (intro fl_le_1) simp
qed

lemma run_events_Nil: "run_events s [] = s"
  by (simp add: run_events_def)

lemma run_events_Cons: "run_events s (ev # evs) = run_events (step s ev) evs"
  by (simp add: run_events_def)

lemma run_events_append: "run_events s (xs @ ys) = run_events (run_events s xs) ys"
  by (simp add: run_events_def)

lemma run_events_samples: "run_events s (replicate n Sample) = run_samples n s"
  by (induction n arbitrary: s) (simp_all add: run_events_Nil run_events_Cons run_samples_0
      run_samples_Suc2)

lemma hold_step_gate:
  assumes "phase s = PHASE_HOLD" "mode s = MODE_GATE"
  shows "advance_envelope s = s\<lparr>envelope := fsub 1 (vel_depth s), phase_pos := phase_pos s + 1\<rparr>"
  using assms by (simp add: advance_envelope_def Let_def)

lemma hold_step_trigger:
  assumes "phase s = PHASE_HOLD" "mode s = MODE_TRIGGER" "phase_pos s + 1 < phase_len s"
  shows "advance_envelope s = s\<lparr>envelope := fsub 1 (vel_depth s), phase_pos := phase_pos s + 1\<rparr>"
  using assms by (simp add: advance_envelope_def Let_def)

lemma hold_gate_run:
  assumes "phase s = PHASE_HOLD" "mode s = MODE_GATE"
  shows "run_samples (Suc n) s =
           s\<lparr>envelope := fsub 1 (vel_depth s), phase_pos := phase_pos s + 1 + int n\<rparr>"
proof (induction n)
  case 0
  show ?case using assms by (simp add: run_samples_Suc run_samples_0 hold_step_gate)
next
  case (Suc n)
  show ?case
    by (subst run_samples_Suc, subst Suc.IH, subst hold_step_gate)
      (simp_all add: assms add.commute add.left_commute)
qed

lemma hold_trigger_run:
  assumes "phase s = PHASE_HOLD" "mode s = MODE_TRIGGER"
  shows "phase_pos s + 1 + int n < phase_len s \<Longrightarrow> run_samples (Suc n) s =
           s\<lparr>envelope := fsub 1 (vel_depth s), phase_pos := phase_pos s + 1 + int n\<rparr>"
proof (induction n)
  case 0
  then show ?case using assms by (simp add: run_samples_Suc run_samples_0 hold_step_trigger)
next
  case (Suc n)
  then have IH: "run_samples (Suc n) s =
           s\<lparr>envelope := fsub 1 (vel_depth s), phase_pos := phase_pos s + 1 + int n\<rparr>"
    by simp
  show ?case
    using Suc.prems
    by (subst run_samples_Suc, subst IH, subst hold_step_trigger)
      (simp_all add: assms add.commute add.left_commute)
qed

lemma process_frames_length: "length (snd (process_frames i n s audio)) = length audio"
proof (induction i n s audio rule: process_frames.induct)
  case (1 i frames inst audio)
  show ?case
  proof (cases "i < frames")
    case True
    then show ?thesis
      using 1 [OF True refl refl refl refl]
      by (subst process_frames.simps) (simp add: Let_def)
  next
    case False
    then show ?thesis by (subst process_frames.simps) simp
  qed
qed

lemma process_frames_inst: "fst (process_frames i n s audio) = run_samples (n - i) s"
proof (induction i n s audio rule: process_frames.induct)
  case (1 i frames inst audio)
  show ?case
  proof (cases "i < frames")
    case True
    then have "frames - i = Suc (frames - (i + 1))" by simp
    then show ?thesis
      using True 1 [OF True refl refl refl refl]
      by (subst process_frames.simps) (simp add: Let_def run_samples_Suc2)
  next
    case False
    then show ?thesis by (subst process_frames.simps) (simp add: run_samples_0)
  qed
qed

lemma process_frames_before:
  "j < 2 * i \<Longrightarrow> snd (process_frames i n s audio) ! j = audio ! j"
proof (induction i n s audio rule: process_frames.induct)
  case (1 i frames inst audio)
  show ?case
  proof (cases "i < frames")
    case True
    have "j < 2 * (i + 1)" using "1.prems" by simp
    then show ?thesis
      using True 1(1) [OF True refl refl refl refl] "1.prems"
      by (subst process_frames.simps) (simp add: Let_def)
  next
    case False
    then show ?thesis by (subst process_frames.simps) simp
  qed
qed

lemma process_frames_out:
  "i \<le> k \<Longrightarrow> k < n \<Longrightarrow> 2 * n \<le> length audio \<Longrightarrow>
   snd (process_frames i n s audio) ! (2 * k) = apply_gain (gain_at s (k - i)) (audio ! (2 * k)) \<and>
   snd (process_frames i n s audio) ! (2 * k + 1) =
     apply_gain (gain_at s (k - i)) (audio ! (2 * k + 1))"
proof (induction i n s audio rule: process_frames.induct)
  case (1 i frames inst audio)
  have lt: "i < frames" using "1.prems" by simp
  define inst' where "inst' = advance_envelope inst"
  define audio' where "audio' = audio[i * 2 := apply_gain (envelope inst') (audio ! (i * 2)),
      i * 2 + 1 := apply_gain (envelope inst') (audio ! (i * 2 + 1))]"
  have unf: "process_frames i frames inst audio = process_frames (i + 1) frames inst' audio'"
    using lt by (subst process_frames.simps) (simp add: Let_def inst'_def audio'_def)
  show ?case
  proof (cases "i = k")
    case True
    then have k: "k = i" by simp
    have "2 * i < 2 * (i + 1)" "2 * i + 1 < 2 * (i + 1)" by simp_all
    then have "snd (process_frames (i + 1) frames inst' audio') ! (2 * i) = audio' ! (2 * i)"
      "snd (process_frames (i + 1) frames inst' audio') ! (2 * i + 1) = audio' ! (2 * i + 1)"
      by (simp_all only: process_frames_before)
    moreover have "2 * i + 1 < length audio" using "1.prems" k by simp
    ultimately show ?thesis
      unfolding k unf
      by (simp add: audio'_def inst'_def gain_at_def run_samples_Suc run_samples_0
          mult.commute)
  next
    case False
    then have le: "i + 1 \<le> k" using "1.prems" by simp
    have len: "2 * frames \<le> length audio'" using "1.prems" by (simp add: audio'_def)
    have a: "audio' ! (2 * k) = audio ! (2 * k)" "audio' ! (2 * k + 1) = audio ! (2 * k + 1)"
      using le by (simp_all add: audio'_def)
    have g: "gain_at inst' (k - (i + 1)) = gain_at inst (k - i)"
    proof -
      have "k - i = Suc (k - (i + 1))" using le by simp
      then show ?thesis by (simp add: gain_at_def inst'_def run_samples_Suc2)
    qed
    have IH: "snd (process_frames (i + 1) frames inst' audio') ! (2 * k) =
          apply_gain (gain_at inst' (k - (i + 1))) (audio' ! (2 * k)) \<and>
        snd (process_frames (i + 1) frames inst' audio') ! (2 * k + 1) =
          apply_gain (gain_at inst' (k - (i + 1))) (audio' ! (2 * k + 1))"
      using 1(1) [OF lt refl refl refl refl le "1.prems"(2)] "1.prems"(3)
      unfolding inst'_def audio'_def by simp
    show ?thesis
      unfolding unf using IH by (simp only: a g)
  qed
qed

lemma samples_nonneg:
  assumes "0 \<le> x" "0 \<le> k"
  shows "0 \<le> ms_to_samples (fmul x k)"
proof -
  have "0 \<le> fmul x k" unfolding fmul_def using assms by (intro fl_nonneg) simp
  moreover have "0 \<le> fdiv (i2f SAMPLE_RATE) 1000"
    by (simp add: SAMPLE_RATE_def f32_eval)
  ultimately have "0 \<le> fl (fmul x k * fdiv (i2f SAMPLE_RATE) 1000)"
    by (intro fl_nonneg) simp
  then have "0 \<le> fmul (fmul x k) (fdiv (i2f SAMPLE_RATE) 1000)"
    by (simp only: fmul_def)
  then show ?thesis by (simp add: ms_to_samples_def f2i_def)
qed

lemma default_samples:
  "attack_samples (v2_create_instance d c) = 220"
  "hold_samples (v2_create_instance d c) = 4410"
  "release_samples (v2_create_instance d c) = 13230"
  by (simp_all add: attack_samples_def hold_samples_def release_samples_def ms_to_samples_def
      v2_create_instance_def SAMPLE_RATE_def f32_eval)

lemma scenario_fields:
  "channel (scenario_instance m) = 1"
  "trigger_note (scenario_instance m) = 36"
  "mode (scenario_instance m) = m"
  "depth (scenario_instance m) = 1"
  "vel_sens (scenario_instance m) = 0"
  "phase (scenario_instance m) = PHASE_IDLE"
  "active_notes (scenario_instance m) = 0"
  "envelope (scenario_instance m) = 1"
  by (simp_all add: scenario_instance_def create_fields)

lemma scenario_samples:
  "attack_samples (scenario_instance m) = 0"
  "hold_samples (scenario_instance m) = 2205"
  "release_samples (scenario_instance m) = 0"
  by (simp_all add: scenario_instance_def attack_samples_def hold_samples_def
      release_samples_def ms_to_samples_def SAMPLE_RATE_def f32_eval)

lemma note_on_127: "qualifies (scenario_instance m) [0x90, 36, 127]" "is_note_on [0x90, 36, 127]"
  by (simp_all add: qualifies_def is_note_on_def scenario_fields)

lemma note_off_36: "qualifies (scenario_instance m) [0x80, 36, 0]" "is_note_off [0x80, 36, 0]"
  by (simp_all add: qualifies_def is_note_off_def scenario_fields)

lemma f32_small: "fmul 1 1 = 1" "fsub 1 1 = 0" "fsub 1 0 = 1"
  by (simp_all add: f32_eval)

lemma samples_state_upd:
  "attack_samples (s\<lparr>active_notes := a\<rparr>) = attack_samples s"
  "attack_samples (s\<lparr>vel_depth := v\<rparr>) = attack_samples s"
  "attack_samples (s\<lparr>envelope := e\<rparr>) = attack_samples s"
  "attack_samples (s\<lparr>phase := p\<rparr>) = attack_samples s"
  "attack_samples (s\<lparr>phase_pos := i\<rparr>) = attack_samples s"
  "attack_samples (s\<lparr>phase_len := l\<rparr>) = attack_samples s"
  "hold_samples (s\<lparr>active_notes := a\<rparr>) = hold_samples s"
  "hold_samples (s\<lparr>vel_depth := v\<rparr>) = hold_samples s"
  "hold_samples (s\<lparr>envelope := e\<rparr>) = hold_samples s"
  "hold_samples (s\<lparr>phase := p\<rparr>) = hold_samples s"
  "hold_samples (s\<lparr>phase_pos := i\<rparr>) = hold_samples s"
  "hold_samples (s\<lparr>phase_len := l\<rparr>) = hold_samples s"
  "release_samples (s\<lparr>active_notes := a\<rparr>) = release_samples s"
  "release_samples (s\<lparr>vel_depth := v\<rparr>) = release_samples s"
  "release_samples (s\<lparr>envelope := e\<rparr>) = release_samples s"
  "release_samples (s\<lparr>phase := p\<rparr>) = release_samples s"
  "release_samples (s\<lparr>phase_pos := i\<rparr>) = release_samples s"
  "release_samples (s\<lparr>phase_len := l\<rparr>) = release_samples s"
  by (simp_all add: attack_samples_def hold_samples_def release_samples_def)

lemma scenario_note_on:
  "ducker_on_midi (scenario_instance m) [0x90, 36, 127] =
     (scenario_instance m)\<lparr>active_notes := 1, vel_depth := 1, envelope := 0,
        phase := PHASE_HOLD, phase_pos := 0, phase_len := 2205\<rparr>"
  by (simp add: on_midi_note_on [OF note_on_127] scenario_fields velocity_scale_def
      f32_small start_attack_def Let_def samples_state_upd scenario_samples)


lemma apply_gain_0: "apply_gain 0 x = 0"
  by (simp add: apply_gain_def fmul_def fl_zero f2i_def)

lemma sint16_range: "- 32768 \<le> sint (x::16 word) \<and> sint x \<le> 32767"
  using sint_ge [of x] sint_lt [of x] by simp

lemma fl_of_int16: 
  assumes "- 32768 \<le> n" "n \<le> 32767"
  shows "fl (of_int n) = of_int n"
  using assms by (intro fl_of_int) simp

lemma f2i_of_int: "f2i (of_int n) = n"
  by (simp add: f2i_def)

lemma apply_gain_1: "apply_gain 1 x = x"
proof -
  define n where "n = sint x"
  have n: "- 32768 \<le> n" "n \<le> 32767" using sint16_range [of x] by (simp_all add: n_def)
  have "fmul (i2f n) 1 = of_int n"
    using fl_of_int16 [OF n] by (simp add: fmul_def i2f_def)
  moreover have "\<not> (of_int n :: real) > 32767" "\<not> (of_int n :: real) < - 32768"
    using n by simp_all
  ultimately have "apply_gain 1 x = word_of_int n"
    by (simp add: apply_gain_def Let_def f2i_of_int n_def [symmetric])
  then show ?thesis by (simp add: n_def)
qed

lemma trigger_scenario_trace:
  fixes s0
  defines "s0 \<equiv> ducker_on_midi (scenario_instance MODE_TRIGGER) [0x90, 36, 127]"
  shows "k \<le> 2203 \<Longrightarrow> run_samples (Suc k) s0 = s0\<lparr>envelope := 0, phase_pos := 1 + int k\<rparr>"
    and "run_samples 2205 s0 = s0\<lparr>envelope := 0, phase := PHASE_RELEASE, phase_pos := 0,
            phase_len := 0\<rparr>"
    and "run_samples 2206 s0 = s0\<lparr>envelope := 1, phase := PHASE_IDLE, phase_pos := 1,
            phase_len := 0\<rparr>"
proof -
  have s0: "s0 = (scenario_instance MODE_TRIGGER)\<lparr>active_notes := 1, vel_depth := 1,
      envelope := 0, phase := PHASE_HOLD, phase_pos := 0, phase_len := 2205\<rparr>"
    unfolding s0_def by (rule scenario_note_on)
  have sel: "phase s0 = PHASE_HOLD" "mode s0 = MODE_TRIGGER" "phase_pos s0 = 0"
    "phase_len s0 = 2205" "vel_depth s0 = 1" "release_samples s0 = 0"
    by (simp_all add: s0 scenario_fields samples_state_upd scenario_samples)
  show a: "run_samples (Suc k) s0 = s0\<lparr>envelope := 0, phase_pos := 1 + int k\<rparr>"
    if "k \<le> 2203" for k
    using that hold_trigger_run [of s0 k] by (simp add: sel f32_small)
  have e: "(2204::nat) = Suc 2203" "(2205::nat) = Suc 2204" "(2206::nat) = Suc 2205"
    by simp_all
  have "run_samples 2204 s0 = s0\<lparr>envelope := 0, phase_pos := 2204\<rparr>"
    using a [of 2203] by simp
  then have "run_samples 2205 s0 = advance_envelope (s0\<lparr>envelope := 0, phase_pos := 2204\<rparr>)"
    by (subst e(2)) (simp only: run_samples_Suc)
  also have "\<dots> = s0\<lparr>envelope := 0, phase := PHASE_RELEASE, phase_pos := 0, phase_len := 0\<rparr>"
    using sel by (simp add: advance_envelope_def Let_def f32_small samples_state_upd)
  finally show b: "run_samples 2205 s0 = s0\<lparr>envelope := 0, phase := PHASE_RELEASE,
      phase_pos := 0, phase_len := 0\<rparr>" .
  have "run_samples 2206 s0 = advance_envelope (s0\<lparr>envelope := 0,
      phase := PHASE_RELEASE, phase_pos := 0, phase_len := 0\<rparr>)"
    by (subst e(3)) (simp only: run_samples_Suc b)
  also have "\<dots> = s0\<lparr>envelope := 1, phase := PHASE_IDLE, phase_pos := 1, phase_len := 0\<rparr>"
    by (simp add: advance_envelope_def Let_def)
  finally show "run_samples 2206 s0 = s0\<lparr>envelope := 1, phase := PHASE_IDLE, phase_pos := 1,
      phase_len := 0\<rparr>" .
qed

lemma create_durations:
  "0 \<le> attack (v2_create_instance d c)" "0 \<le> hold (v2_create_instance d c)"
  "0 \<le> release (v2_create_instance d c)"
  by (simp_all add: v2_create_instance_def f32_eval)

lemma note_on_default: "qualifies (v2_create_instance d c) [0x90, 36, 100]"
  "is_note_on [0x90, 36, 100]"
  by (simp_all add: qualifies_def is_note_on_def create_fields)

lemma run_events_note_samples:
  "run_events s (Midi m # replicate n Sample) = run_samples n (ducker_on_midi s m)"
  by (simp add: run_events_Cons run_events_samples)


lemma gate_scenario_trace:
  "run_samples (Suc n) (ducker_on_midi (scenario_instance MODE_GATE) [0x90, 36, 127]) =
     (scenario_instance MODE_GATE)\<lparr>active_notes := 1, vel_depth := 1, envelope := 0,
        phase := PHASE_HOLD, phase_pos := 1 + int n, phase_len := 2205\<rparr>"
  by (subst hold_gate_run) (simp_all add: scenario_note_on scenario_fields f32_small)

lemma velocity_scale_formula:
  assumes "0 \<le> vs"
  shows "velocity_scale vs v = fadd (fsub 1 vs) (fmul vs (fdiv (i2f (uint v)) 127))"
proof (cases "0 < vs")
  case True
  then show ?thesis by (simp add: velocity_scale_def)
next
  case False
  with assms have "vs = 0" by simp
  then show ?thesis
    by (simp add: velocity_scale_def fadd_def fsub_def fmul_def fl_zero fl_one)
qed

lemma velocity_scale_full: "velocity_scale 1 127 = 1"
  by (simp add: velocity_scale_def f32_eval)

lemma velocity_scale_least: "velocity_scale 1 1 = fl (1/127)"
  by (simp add: velocity_scale_def f32_eval)

lemma on_midi_velocity_0:
  assumes "qualifies inst msg" "(msg ! 0) AND 0xF0 = 0x90" "msg ! 2 = 0"
  shows "vel_depth (ducker_on_midi inst msg) = vel_depth inst"
proof -
  have "is_note_off msg" using assms by (simp add: is_note_off_def)
  then show ?thesis
    using assms(1) by (simp add: on_midi_note_off Let_def start_release_config)
qed

lemma start_attack_gate_phase:
  "mode s = MODE_GATE \<Longrightarrow>
   phase (start_attack s) = PHASE_ATTACK \<or> phase (start_attack s) = PHASE_HOLD"
  by (simp add: start_attack_def Let_def)

lemma start_release_phase:
  "phase (start_release s) = PHASE_RELEASE \<or> phase (start_release s) = PHASE_IDLE"
  by (simp add: start_release_def Let_def)

lemma advance_gate_phase:
  assumes "mode s = MODE_GATE"
    and "phase (advance_envelope s) = PHASE_IDLE \<or> phase (advance_envelope s) = PHASE_RELEASE"
  shows "phase s = PHASE_IDLE \<or> phase s = PHASE_RELEASE"
  using assms by (cases "phase s") (simp_all add: advance_envelope_def Let_def split: if_splits)

lemma gate_released_step:
  assumes "mode s = MODE_GATE" "0 \<le> active_notes s"
    and "phase s = PHASE_IDLE \<or> phase s = PHASE_RELEASE \<longrightarrow> active_notes s = 0"
  shows "mode (step s ev) = MODE_GATE \<and> 0 \<le> active_notes (step s ev) \<and>
         (phase (step s ev) = PHASE_IDLE \<or> phase (step s ev) = PHASE_RELEASE
            \<longrightarrow> active_notes (step s ev) = 0)"
proof (cases ev)
  case Sample
  then show ?thesis
    using assms advance_gate_phase [of s] by (auto simp: advance_config)
next
  case (Midi msg)
  consider "ducker_on_midi s msg = s" | "qualifies s msg" "is_note_on msg"
    | "qualifies s msg" "is_note_off msg"
    using on_midi_cases [of s msg] by blast
  then show ?thesis
  proof cases
    case 1
    with assms Midi show ?thesis by simp
  next
    case 2
    have "phase (ducker_on_midi s msg) = PHASE_ATTACK \<or> phase (ducker_on_midi s msg) = PHASE_HOLD"
      using assms(1) by (simp add: on_midi_note_on [OF 2] start_attack_gate_phase)
    then show ?thesis
      using assms Midi by (auto simp: on_midi_note_on [OF 2] start_attack_config)
  next
    case 3
    show ?thesis
      using assms Midi start_release_phase [of "s\<lparr>active_notes := active_notes s - 1\<rparr>"]
        start_release_phase [of s]
      by (auto simp: on_midi_note_off [OF 3] Let_def start_release_config)
  qed
qed

lemma gate_released_run:
  assumes "mode s = MODE_GATE" "0 \<le> active_notes s"
    and "phase s = PHASE_IDLE \<or> phase s = PHASE_RELEASE \<longrightarrow> active_notes s = 0"
  shows "mode (run_events s evs) = MODE_GATE \<and> 0 \<le> active_notes (run_events s evs) \<and>
         (phase (run_events s evs) = PHASE_IDLE \<or> phase (run_events s evs) = PHASE_RELEASE
            \<longrightarrow> active_notes (run_events s evs) = 0)"
  using assms
proof (induction evs arbitrary: s)
  case Nil
  then show ?case by (simp add: run_events_Nil)
next
  case (Cons ev evs)
  note st = gate_released_step [OF Cons.prems, of ev]
  show ?case
    unfolding run_events_Cons using st by (intro Cons.IH) simp_all
qed

lemma qualifies_cong:
  "channel s' = channel s \<Longrightarrow> trigger_note s' = trigger_note s \<Longrightarrow>
   qualifies s' m = qualifies s m"
  by (simp add: qualifies_def)

lemma start_filter_fields:
  "channel (start_attack s) = channel s" "trigger_note (start_attack s) = trigger_note s"
  "channel (start_release s) = channel s" "trigger_note (start_release s) = trigger_note s"
  by (simp_all add: start_attack_def start_release_def Let_def)

lemma on_midi_filter_fields:
  "channel (ducker_on_midi s m) = channel s" "trigger_note (ducker_on_midi s m) = trigger_note s"
  by (simp_all add: on_midi_unfold start_filter_fields Let_def)

lemma run_filter_fields:
  "channel (run_samples n s) = channel s" "trigger_note (run_samples n s) = trigger_note s"
  by (induction n) (simp_all add: run_samples_0 run_samples_Suc advance_config)

lemma gate_scenario_hold:
  "run_samples 1000 (ducker_on_midi (scenario_instance MODE_GATE) [0x90, 36, 127]) =
     (scenario_instance MODE_GATE)\<lparr>active_notes := 1, vel_depth := 1, envelope := 0,
        phase := PHASE_HOLD, phase_pos := 1000, phase_len := 2205\<rparr>"
proof -
  have "(1000::nat) = Suc 999" by simp
  then show ?thesis using gate_scenario_trace [of 999] by simp
qed

lemma gate_scenario_stop:
  "ducker_on_midi ((scenario_instance MODE_GATE)\<lparr>active_notes := 1, vel_depth := 1,
        envelope := 0, phase := PHASE_HOLD, phase_pos := 1000, phase_len := 2205\<rparr>) [0x80, 36, 0] =
     (scenario_instance MODE_GATE)\<lparr>active_notes := 0, vel_depth := 1, envelope := 1,
        phase := PHASE_IDLE, phase_pos := 0, phase_len := 0\<rparr>"
proof -
  have q: "qualifies ((scenario_instance MODE_GATE)\<lparr>active_notes := 1, vel_depth := 1,
        envelope := 0, phase := PHASE_HOLD, phase_pos := 1000, phase_len := 2205\<rparr>) [0x80, 36, 0]"
    using note_off_36(1) [of MODE_GATE] by (simp add: qualifies_def)
  show ?thesis
    by (simp add: on_midi_note_off [OF q note_off_36(2)] Let_def scenario_fields
        start_release_def samples_state_upd scenario_samples)
qed

lemma fsub_unit: "0 \<le> d \<Longrightarrow> d \<le> 1 \<Longrightarrow> 0 \<le> fsub 1 d \<and> fsub 1 d \<le> 1"
  unfolding fsub_def by (intro conjI fl_nonneg fl_le_1) simp_all

lemma range_inv_advance:
  assumes r: "range_inv s" and p: "phase_inv s"
  shows "range_inv (advance_envelope s)"
proof -
  have d: "0 \<le> vel_depth s" "vel_depth s \<le> 5/2" "is_f32 (vel_depth s)" "vel_depth s \<le> 1"
    and e: "phase s = PHASE_IDLE \<longrightarrow> envelope s = 1"
    using r by (simp_all add: range_inv_def)
  note b = advance_gain_bounds [OF d(1,2,3) p e]
  have "0 \<le> fsub 1 (vel_depth s)" using fsub_unit [OF d(1,4)] by simp
  with b have "0 \<le> envelope (advance_envelope s)" "envelope (advance_envelope s) \<le> 1"
    by simp_all
  then show ?thesis
    using r idle_env_advance [OF e] by (simp add: range_inv_def advance_config)
qed

lemma start_attack_envelope:
  "envelope (start_attack s) = envelope s \<or> envelope (start_attack s) = fsub 1 (vel_depth s)"
  by (simp add: start_attack_def Let_def)

lemma start_release_envelope:
  "(phase (start_release s) = PHASE_IDLE \<and> envelope (start_release s) = 1) \<or>
   (phase (start_release s) \<noteq> PHASE_IDLE \<and> envelope (start_release s) = envelope s)"
  by (simp add: start_release_def Let_def)

lemma range_inv_note_on:
  assumes r: "range_inv s" and q: "qualifies s msg" "is_note_on msg"
    and v: "uint (msg ! 2) \<le> 127"
  shows "range_inv (ducker_on_midi s msg)"
proof -
  have c: "0 \<le> depth s" "depth s \<le> 1" "0 \<le> vel_sens s" "vel_sens s \<le> 1" "is_f32 (vel_sens s)"
    "0 \<le> envelope s" "envelope s \<le> 1"
    using r by (simp_all add: range_inv_def)
  define d where "d = fmul (depth s) (velocity_scale (vel_sens s) (msg ! 2))"
  define s1 where "s1 = s\<lparr>active_notes := active_notes s + 1, vel_depth := d\<rparr>"
  have d: "0 \<le> d" "d \<le> 1" "is_f32 d"
    using note_depth_bounds [OF c(1,2,3,4), of "msg ! 2"] note_depth_le_1 [OF c(1,2,3,4,5) v]
    by (simp_all add: d_def)
  have s: "ducker_on_midi s msg = start_attack s1"
    unfolding s1_def d_def using q by (rule on_midi_note_on)
  have "envelope (start_attack s1) = envelope s \<or> envelope (start_attack s1) = fsub 1 d"
    using start_attack_envelope [of s1] by (simp add: s1_def)
  then have "0 \<le> envelope (start_attack s1) \<and> envelope (start_attack s1) \<le> 1"
    using c(6,7) fsub_unit [OF d(1,2)] by auto
  then show ?thesis
    using c d start_attack_not_idle [of s1]
    by (simp add: s range_inv_def start_attack_config) (simp add: s1_def)
qed

lemma range_inv_note_off:
  assumes r: "range_inv s" and q: "qualifies s msg" "is_note_off msg"
  shows "range_inv (ducker_on_midi s msg)"
proof -
  have u: "range_inv (s\<lparr>active_notes := n\<rparr>) = range_inv s" for n
    by (simp add: range_inv_def)
  have rel: "range_inv (start_release t)" if "range_inv t" for t
    using that start_release_envelope [of t]
    by (auto simp: range_inv_def start_release_config)
  show ?thesis
    using r by (simp add: on_midi_note_off [OF q] Let_def rel u)
qed

lemma range_inv_step:
  assumes "range_inv s" "phase_inv s" "velocity_ok ev"
  shows "range_inv (step s ev)"
proof (cases ev)
  case Sample
  with assms show ?thesis by (simp add: range_inv_advance)
next
  case (Midi msg)
  consider "ducker_on_midi s msg = s" | "qualifies s msg" "is_note_on msg"
    | "qualifies s msg" "is_note_off msg"
    using on_midi_cases [of s msg] by blast
  then show ?thesis
  proof cases
    case 1
    with assms Midi show ?thesis by simp
  next
    case 2
    then have "uint (msg ! 2) \<le> 127"
      using assms(3) Midi by (simp add: velocity_ok_def qualifies_def)
    with assms(1) 2 Midi show ?thesis by (simp add: range_inv_note_on)
  next
    case 3
    with assms(1) Midi show ?thesis by (simp add: range_inv_note_off)
  qed
qed

lemma range_inv_run_events:
  assumes "range_inv s" "phase_inv s" "\<forall>ev\<in>set evs. velocity_ok ev"
  shows "range_inv (run_events s evs) \<and> phase_inv (run_events s evs)"
  using assms
proof (induction evs arbitrary: s)
  case Nil
  then show ?case by (simp add: run_events_Nil)
next
  case (Cons ev evs)
  have "range_inv (step s ev)" "phase_inv (step s ev)"
    using Cons.prems by (simp_all add: range_inv_step phase_inv_step)
  then show ?case
    unfolding run_events_Cons using Cons.prems(3) by (intro Cons.IH) simp_all
qed

lemma range_inv_run_samples:
  assumes "range_inv s" "phase_inv s"
  shows "range_inv (run_samples n s)"
  using range_inv_run_events [OF assms, of "replicate n Sample"]
  by (simp add: run_events_samples velocity_ok_def)

lemma apply_gain_unit:
  assumes g: "0 \<le> g" "g \<le> 1"
  shows "sint (apply_gain g x) = f2i (fmul (i2f (sint x)) g) \<and>
         \<not> 32767 < fmul (i2f (sint x)) g \<and> \<not> fmul (i2f (sint x)) g < - 32768 \<and>
         \<bar>sint (apply_gain g x)\<bar> \<le> \<bar>sint x\<bar>"
proof -
  define n where "n = sint x"
  have n: "- 32768 \<le> n" "n \<le> 32767" using sint16_range [of x] by (simp_all add: n_def)
  have i: "i2f n = of_int n" unfolding i2f_def using n by (rule fl_of_int16)
  define l where "l = fmul (i2f n) g"
  have l: "l = fl (of_int n * g)" by (simp add: l_def fmul_def i)
  have fn: "fl (of_int n) = of_int n" using n by (rule fl_of_int16)
  have b: "(0 \<le> n \<longrightarrow> 0 \<le> l \<and> l \<le> of_int n) \<and> (n < 0 \<longrightarrow> of_int n \<le> l \<and> l \<le> 0)"
  proof (cases "0 \<le> n")
    case True
    then have rn: "(0::real) \<le> of_int n" by simp
    have "0 \<le> of_int n * g" using rn g by simp
    moreover have "of_int n * g \<le> of_int n * 1" using rn g by (intro mult_left_mono) simp_all
    ultimately have "0 \<le> of_int n * g" "of_int n * g \<le> of_int n" by simp_all
    then have "0 \<le> fl (of_int n * g)" "fl (of_int n * g) \<le> fl (of_int n)"
      by (simp_all add: fl_nonneg fl_mono)
    with True show ?thesis by (simp add: l fn)
  next
    case False
    then have rn: "of_int n \<le> (0::real)" by simp
    have "of_int n * g \<le> 0" using rn g by (simp add: mult_nonpos_nonneg)
    moreover have "of_int n * 1 \<le> of_int n * g" using rn g by (intro mult_left_mono_neg) simp_all
    ultimately have "of_int n \<le> of_int n * g" "of_int n * g \<le> 0" by simp_all
    then have "fl (of_int n) \<le> fl (of_int n * g)" "fl (of_int n * g) \<le> fl 0"
      by (simp_all add: fl_mono)
    with False show ?thesis by (simp add: l fn fl_zero)
  qed
  have lo: "\<not> 32767 < l" "\<not> l < - 32768"
    using b n by (cases "0 \<le> n"; simp; linarith)+
  have t: "(0 \<le> n \<longrightarrow> 0 \<le> f2i l \<and> f2i l \<le> n) \<and> (n < 0 \<longrightarrow> n \<le> f2i l \<and> f2i l \<le> 0)"
    using b by (auto simp: f2i_def floor_le_iff le_floor_iff ceiling_le_iff le_ceiling_iff)
  then have r: "- 32768 \<le> f2i l" "f2i l < 32768" using n by (cases "0 \<le> n"; simp)+
  have a: "apply_gain g x = word_of_int (f2i l)"
    using lo by (simp add: apply_gain_def Let_def l_def n_def)
  have "sint (word_of_int (f2i l) :: 16 word) = f2i l"
    unfolding sint_sbintrunc' using r by (intro signed_take_bit_int_eq_self) simp_all
  then have s: "sint (apply_gain g x) = f2i l" by (simp add: a)
  have "\<bar>f2i l\<bar> \<le> \<bar>n\<bar>" using t by (cases "0 \<le> n") simp_all
  with s lo show ?thesis by (simp add: l_def n_def)
qed

lemma range_inv_create: "range_inv (v2_create_instance d c)" "phase_inv (v2_create_instance d c)"
  by (simp_all add: range_inv_def phase_inv_def create_fields is_f32_0)

lemma apply_gain_half: "apply_gain (1/2) 1001 = 500"
  by (simp add: apply_gain_def Let_def f32_eval)

lemma loud_note_on:
  "ducker_on_midi ((v2_create_instance [] [])\<lparr>vel_sens := 1, attack := 0\<rparr>) [0x90, 36, 255] =
     (v2_create_instance [] [])\<lparr>vel_sens := 1, attack := 0, active_notes := 1,
        vel_depth := 4210817 / 2097152, envelope := - (2113665 / 2097152),
        phase := PHASE_HOLD, phase_pos := 0, phase_len := 4410\<rparr>"
proof -
  have q: "qualifies ((v2_create_instance [] [])\<lparr>vel_sens := 1, attack := 0\<rparr>) [0x90, 36, 255]"
    "is_note_on [0x90, 36, 255]"
    by (simp_all add: qualifies_def is_note_on_def create_fields)
  have v: "fmul 1 (velocity_scale 1 255) = 4210817 / 2097152"
    by (simp add: velocity_scale_def f32_eval)
  have e: "fsub 1 (4210817 / 2097152) = - (2113665 / 2097152)"
    by (simp add: f32_eval)
  have a: "attack_samples ((v2_create_instance [] [])\<lparr>vel_sens := 1, attack := 0\<rparr>) = 0"
    "hold_samples ((v2_create_instance [] [])\<lparr>vel_sens := 1, attack := 0\<rparr>) = 4410"
    by (simp_all add: attack_samples_def hold_samples_def ms_to_samples_def
        v2_create_instance_def SAMPLE_RATE_def f32_eval)
  show ?thesis
    by (simp add: on_midi_note_on [OF q] create_fields v e start_attack_def Let_def
        samples_state_upd a)
qed


section \<open>Properties of the parameter interface\<close>

subsection \<open>Evaluation\<close>

lemmas str_eval = atoi_def atof_def is_space_def is_digit_def digit_val_def digit_char_def
  unmodelled_number_def parse_exponent_def show_int_def show_nat.simps show_fixed_def

lemma fixed_digits_2: "fixed_digits 2 v = [digit_char (v div 10 mod 10), digit_char (v mod 10)]"
  by (simp add: numeral_2_eq_2)

lemma fixed_digits_3:
  "fixed_digits 3 v = [digit_char (v div 10 div 10 mod 10), digit_char (v div 10 mod 10),
     digit_char (v mod 10)]"
  by (simp add: numeral_3_eq_3)

lemma ilog2_ge2: "2 \<le> x \<Longrightarrow> ilog2 x = ilog2 (x / 2) + 1"
  by (subst ilog2.simps) simp

lemma ilog2_lt1: "0 < x \<Longrightarrow> x < 1 \<Longrightarrow> ilog2 x = ilog2 (2 * x) - 1"
  by (subst ilog2.simps) simp

lemma ilog2_unit: "1 \<le> x \<Longrightarrow> x < 2 \<Longrightarrow> ilog2 x = 0"
  by (subst ilog2.simps) simp

lemma ilog2_nonpos: "x \<le> 0 \<Longrightarrow> ilog2 x = 0"
  by (subst ilog2.simps) simp

lemmas f32_calc = fl_def fl64_def round_nearest_def expo_def ilog2_ge2 ilog2_lt1 ilog2_unit
  ilog2_nonpos rne_def power_int_minus fadd_def fsub_def fmul_def fdiv_def i2f_def f2i_def

lemma atof_17: "atof ''17'' = Some 17"
  by (simp add: str_eval f32_calc)

lemma atoi_17: "atoi ''17'' = 17"
  by (simp add: str_eval)

lemma calc_17: "f2i (fadd (fmul (fl 17) 16) (1/2)) = 272"
  by (simp add: f32_calc)

lemma parse_channel_17: "parse_channel ''17'' = Some 272"
  by (simp add: parse_channel_def atof_17 atoi_17 calc_17)

lemma atof_neg1: "atof ''-1'' = Some (- 1)"
  by (simp add: str_eval f32_calc)

lemma atoi_neg1: "atoi ''-1'' = - 1"
  by (simp add: str_eval)

lemma calc_neg1: "f2i (fadd (fmul (fl (- 1)) 16) (1/2)) = - 15"
  by (simp add: f32_calc)

lemma parse_channel_neg: "parse_channel ''-1'' = Some (- 15)"
  by (simp add: parse_channel_def atof_neg1 atoi_neg1 calc_neg1)

subsection \<open>Printing and reading back numbers\<close>

lemma is_digit_not:
  assumes "is_digit c"
  shows "c \<noteq> CHR 0x22" "c \<noteq> CHR ''-''" "c \<noteq> CHR ''+''" "c \<noteq> CHR ''.''" "\<not> is_space c"
    "c \<noteq> CHR '' ''" "c \<noteq> CHR 0x09" "c \<notin> set ''iInN''" "c \<notin> set ''xX''"
  using assms by (auto simp add: is_digit_def is_space_def)

lemma digit_char_digit:
  assumes "n < 10"
  shows "is_digit (digit_char n)" "digit_val (digit_char n) = n"
proof -
  from assms have "n \<in> {0, 1, 2, 3, 4, 5, 6, 7, 8, 9}" by auto
  then show "is_digit (digit_char n)" "digit_val (digit_char n) = n"
    by (auto simp add: digit_char_def is_digit_def digit_val_def)
qed

lemma show_nat_nonempty: "show_nat n \<noteq> []"
  by (subst show_nat.simps) simp

lemma show_nat_digits: "c \<in> set (show_nat n) \<Longrightarrow> is_digit c"
proof (induction n arbitrary: c rule: show_nat.induct)
  case (1 n)
  show ?case
  proof (cases "n < 10")
    case True
    with "1.prems" show ?thesis
      by (subst (asm) show_nat.simps) (simp add: digit_char_digit)
  next
    case False
    with "1.prems" have "c \<in> set (show_nat (n div 10)) \<or> c = digit_char (n mod 10)"
      by (subst (asm) show_nat.simps) auto
    then show ?thesis using "1.IH" [OF False] by (auto simp add: digit_char_digit)
  qed
qed

lemma show_nat_Cons: "\<exists>d ds. show_nat n = d # ds \<and> is_digit d \<and> (\<forall>c\<in>set ds. is_digit c)"
proof (cases "show_nat n")
  case Nil
  then show ?thesis by (simp add: show_nat_nonempty)
next
  case (Cons d ds)
  then have "\<forall>c\<in>set (d # ds). is_digit c" using show_nat_digits [of _ n] by simp
  with Cons show ?thesis by simp
qed

lemma fixed_digits_digits: "c \<in> set (fixed_digits k v) \<Longrightarrow> is_digit c"
  by (induction k arbitrary: v) (auto simp add: digit_char_digit)

lemma fixed_digits_length: "length (fixed_digits k v) = k"
  by (induction k arbitrary: v) simp_all

lemma parse_digits_show_nat:
  "parse_digits acc cnt (show_nat n @ rest) =
     parse_digits (acc * 10 ^ length (show_nat n) + n) (cnt + length (show_nat n)) rest"
proof (induction n arbitrary: acc cnt rest rule: show_nat.induct)
  case (1 n)
  show ?case
  proof (cases "n < 10")
    case True
    then have "show_nat n = [digit_char n]" by (subst show_nat.simps) simp
    with True show ?thesis by (simp add: digit_char_digit mult.commute)
  next
    case False
    then have s: "show_nat n = show_nat (n div 10) @ [digit_char (n mod 10)]"
      by (subst show_nat.simps) simp
    have d: "is_digit (digit_char (n mod 10))" "digit_val (digit_char (n mod 10)) = n mod 10"
      by (simp_all add: digit_char_digit)
    have "parse_digits acc cnt (show_nat n @ rest) =
        parse_digits acc cnt (show_nat (n div 10) @ digit_char (n mod 10) # rest)"
      by (simp add: s)
    also have "\<dots> = parse_digits (acc * 10 ^ length (show_nat (n div 10)) + n div 10)
        (cnt + length (show_nat (n div 10))) (digit_char (n mod 10) # rest)"
      by (rule "1.IH" [OF False])
    also have "\<dots> = parse_digits (10 * (acc * 10 ^ length (show_nat (n div 10)) + n div 10) + n mod 10)
        (Suc (cnt + length (show_nat (n div 10)))) rest"
      by (simp add: d)
    also have "10 * (acc * 10 ^ length (show_nat (n div 10)) + n div 10) + n mod 10 =
        acc * 10 ^ length (show_nat n) + n"
      by (simp add: s algebra_simps)
    also have "Suc (cnt + length (show_nat (n div 10))) = cnt + length (show_nat n)"
      by (simp add: s)
    finally show ?thesis .
  qed
qed

lemma parse_digits_fixed:
  "v < 10 ^ k \<Longrightarrow> parse_digits acc cnt (fixed_digits k v @ rest) =
     parse_digits (acc * 10 ^ k + v) (cnt + k) rest"
proof (induction k arbitrary: v rest)
  case 0
  then show ?case by simp
next
  case (Suc k)
  have d: "is_digit (digit_char (v mod 10))" "digit_val (digit_char (v mod 10)) = v mod 10"
    by (simp_all add: digit_char_digit)
  from Suc.prems have "v div 10 < 10 ^ k" by (simp add: less_mult_imp_div_less mult.commute)
  then have "parse_digits acc cnt (fixed_digits k (v div 10) @ digit_char (v mod 10) # rest) =
      parse_digits (acc * 10 ^ k + v div 10) (cnt + k) (digit_char (v mod 10) # rest)"
    by (rule Suc.IH)
  also have "\<dots> = parse_digits (10 * (acc * 10 ^ k + v div 10) + v mod 10) (Suc (cnt + k)) rest"
    by (simp add: d)
  also have "10 * (acc * 10 ^ k + v div 10) + v mod 10 = acc * 10 ^ Suc k + v"
    by (simp add: algebra_simps)
  finally show ?case by simp
qed

lemma dropWhile_show_nat:
  "(\<And>c. is_digit c \<Longrightarrow> \<not> P c) \<Longrightarrow> dropWhile P (show_nat n @ rest) = show_nat n @ rest"
  using show_nat_Cons [of n] by auto

lemma parse_sign_show_nat: "parse_sign (show_nat n @ rest) = (False, show_nat n @ rest)"
  using show_nat_Cons [of n] by (auto simp add: is_digit_not)

lemma modelled_show_nat:
  assumes "c \<notin> set ''xX''"
  shows "\<not> unmodelled_number (show_nat n @ c # r)"
proof -
  obtain d ds where s: "show_nat n = d # ds" "is_digit d" "\<forall>c\<in>set ds. is_digit c"
    using show_nat_Cons [of n] by blast
  show ?thesis
  proof (cases ds)
    case Nil
    with s assms show ?thesis using is_digit_not(8) [of d]
      by (simp add: unmodelled_number_def)
  next
    case (Cons e es)
    with s have "is_digit e" by simp
    then have "e \<notin> set ''xX''" by (rule is_digit_not)
    with s Cons show ?thesis using is_digit_not(8) [of d]
      by (simp add: unmodelled_number_def)
  qed
qed

lemma atof_show_nat:
  assumes "c = CHR '','' \<or> c = CHR ''}''"
  shows "atof (show_nat n @ c # r) = Some (fl64 (real n))"
    and "atof (CHR ''-'' # show_nat n @ c # r) = Some (fl64 (- real n))"
proof -
  from assms have c: "c \<notin> set ''xX''" "\<not> is_digit c" "c \<noteq> CHR ''.''" "c \<noteq> CHR ''e''" "c \<noteq> CHR ''E''"
    by (auto simp add: is_digit_def)
  have m: "\<not> unmodelled_number (show_nat n @ c # r)" using c(1) by (rule modelled_show_nat)
  show "atof (show_nat n @ c # r) = Some (fl64 (real n))"
    unfolding atof_def
    by (simp add: dropWhile_show_nat is_digit_not parse_sign_show_nat m parse_digits_show_nat c
        parse_exponent_def show_nat_nonempty)
  show "atof (CHR ''-'' # show_nat n @ c # r) = Some (fl64 (- real n))"
    unfolding atof_def
    by (simp add: is_space_def m parse_digits_show_nat c parse_exponent_def show_nat_nonempty)
qed

lemma atof_show_int:
  assumes "c = CHR '','' \<or> c = CHR ''}''"
  shows "atof (show_int i @ c # r) = Some (fl64 (of_int i))"
  using atof_show_nat [OF assms, of "nat i" r] atof_show_nat [OF assms, of "nat (- i)" r]
  by (simp add: show_int_def)

lemma show_fixed_nonneg:
  "0 \<le> x \<Longrightarrow> show_fixed k x =
     show_nat (nat (rne (x * 10 ^ k)) div 10 ^ k) @ CHR ''.'' # fixed_digits k (nat (rne (x * 10 ^ k)) mod 10 ^ k)"
  by (simp add: show_fixed_def Let_def)

lemma atof_fixed:
  assumes "c = CHR '','' \<or> c = CHR ''}''" "b < 10 ^ k"
  shows "atof (show_nat a @ CHR ''.'' # fixed_digits k b @ c # r) =
    Some (fl64 (real (a * 10 ^ k + b) / 10 ^ k))"
proof -
  from assms have c: "c \<notin> set ''xX''" "\<not> is_digit c" "c \<noteq> CHR ''.''" "c \<noteq> CHR ''e''" "c \<noteq> CHR ''E''"
    by (auto simp add: is_digit_def)
  have m: "\<not> unmodelled_number (show_nat a @ CHR ''.'' # fixed_digits k b @ c # r)"
    by (rule modelled_show_nat) simp
  have dot: "\<not> is_digit CHR ''.''" by (simp add: is_digit_def)
  show ?thesis
    unfolding atof_def
    by (simp add: dropWhile_show_nat is_digit_not parse_sign_show_nat m parse_digits_show_nat c dot
        parse_digits_fixed [OF assms(2)] parse_exponent_def show_nat_nonempty)
qed

lemma atof_show_fixed:
  assumes "c = CHR '','' \<or> c = CHR ''}''" "0 \<le> x"
  shows "atof (show_fixed k x @ c # r) = Some (fl64 (real (nat (rne (x * 10 ^ k))) / 10 ^ k))"
proof -
  define m where "m = nat (rne (x * 10 ^ k))"
  have "atof (show_nat (m div 10 ^ k) @ CHR ''.'' # fixed_digits k (m mod 10 ^ k) @ c # r) =
      Some (fl64 (real (m div 10 ^ k * 10 ^ k + m mod 10 ^ k) / 10 ^ k))"
    by (rule atof_fixed [OF assms(1)]) simp
  then have "atof (show_nat (m div 10 ^ k) @ CHR ''.'' # fixed_digits k (m mod 10 ^ k) @ c # r) =
      Some (fl64 (real m / 10 ^ k))"
    by (simp only: div_mult_mod_eq)
  then show ?thesis using assms(2) by (simp add: show_fixed_nonneg m_def)
qed

subsection \<open>Reading a serialised state\<close>

lemma show_int_nonempty: "show_int i \<noteq> []"
  by (simp add: show_int_def show_nat_nonempty)

lemma show_fixed_nonempty: "show_fixed k x \<noteq> []"
  by (simp add: show_fixed_def Let_def show_nat_nonempty)

lemma quote_show_nat: "CHR 0x22 \<notin> set (show_nat n)"
  using is_digit_not(1) show_nat_digits by blast

lemma quote_fixed_digits: "CHR 0x22 \<notin> set (fixed_digits k v)"
  using is_digit_not(1) fixed_digits_digits by blast

lemma quote_show_int: "CHR 0x22 \<notin> set (show_int i)"
  by (simp add: show_int_def quote_show_nat)

lemma quote_show_fixed: "CHR 0x22 \<notin> set (show_fixed k x)"
  by (simp add: show_fixed_def Let_def quote_show_nat quote_fixed_digits)

lemma blank_show_int:
  "dropWhile (\<lambda>c. c = CHR '' '' \<or> c = CHR 0x09) (show_int i @ rest) = show_int i @ rest"
  by (simp add: show_int_def dropWhile_show_nat is_digit_not)

lemma blank_show_fixed:
  "dropWhile (\<lambda>c. c = CHR '' '' \<or> c = CHR 0x09) (show_fixed k x @ rest) = show_fixed k x @ rest"
  by (simp add: show_fixed_def Let_def dropWhile_show_nat is_digit_not)

lemma strstr_skip:
  "CHR 0x22 \<notin> set ns \<Longrightarrow> strstr (ns @ rest) (CHR 0x22 # ds) = strstr rest (CHR 0x22 # ds)"
  by (induction ns) auto

lemma prefix_quote:
  "ns \<noteq> [] \<Longrightarrow> CHR 0x22 \<notin> set ns \<Longrightarrow> \<not> prefix (CHR 0x22 # ds) (ns @ rest)"
  by (cases ns) auto

lemmas json_scan = strstr_skip prefix_quote quote_show_int quote_show_fixed show_int_nonempty
  show_fixed_nonempty blank_show_int blank_show_fixed atof_show_int atof_show_fixed

lemma state_number:
  "json_get_number (state_json inst) ''channel'' = Number (fl (fl64 (of_int (channel inst))))"
  "json_get_number (state_json inst) ''trigger_note'' =
     Number (fl (fl64 (of_int (trigger_note inst))))"
  "json_get_number (state_json inst) ''mode'' =
     Number (fl (fl64 (of_int (int_of_mode (mode inst)))))"
  "json_get_number (state_json inst) ''curve'' =
     Number (fl (fl64 (of_int (int_of_curve (curve inst)))))"
  by (simp_all add: json_get_number_def state_json_def json_scan)

lemma state_number_float:
  "0 \<le> depth inst \<Longrightarrow> json_get_number (state_json inst) ''depth'' =
     Number (fl (fl64 (real (nat (rne (depth inst * 1000))) / 1000)))"
  "0 \<le> attack inst \<Longrightarrow> json_get_number (state_json inst) ''attack'' =
     Number (fl (fl64 (real (nat (rne (attack inst * 1000))) / 1000)))"
  "0 \<le> hold inst \<Longrightarrow> json_get_number (state_json inst) ''hold'' =
     Number (fl (fl64 (real (nat (rne (hold inst * 1000))) / 1000)))"
  "0 \<le> release inst \<Longrightarrow> json_get_number (state_json inst) ''release'' =
     Number (fl (fl64 (real (nat (rne (release inst * 1000))) / 1000)))"
  "0 \<le> vel_sens inst \<Longrightarrow> json_get_number (state_json inst) ''vel_sens'' =
     Number (fl (fl64 (real (nat (rne (vel_sens inst * 1000))) / 1000)))"
  by (simp_all add: json_get_number_def state_json_def json_scan)

lemma state_string:
  "json_get_string (state_json inst) ''channel'' 32 = None"
  "json_get_string (state_json inst) ''mode'' 32 = None"
  "json_get_string (state_json inst) ''curve'' 32 = None"
  by (simp_all add: json_get_string_def state_json_def json_scan)

lemma rne_near:
  assumes "\<bar>x - of_int k\<bar> < 1/2"
  shows "rne x = k"
proof -
  have "\<bar>of_int (rne x) - x\<bar> \<le> 1/2" by (rule rne_err)
  with assms have "\<bar>(of_int (rne x) :: real) - of_int k\<bar> < 1" by linarith
  then have "\<bar>(of_int (rne x - k) :: real)\<bar> < 1" by simp
  then have "\<bar>rne x - k\<bar> < 1" by linarith
  then show ?thesis by simp
qed

lemma fl64_zero: "fl64 0 = 0"
  by (simp add: fl64_def rn_zero)

lemma reload_int:
  assumes "0 \<le> hi" "hi \<le> 127"
  shows "f2i (clampf (fl (fl64 (of_int i))) 0 (of_int hi)) = min hi (max 0 i)"
proof -
  consider "i < 0" | "0 \<le> i" "i \<le> hi" | "hi < i" by linarith
  then show ?thesis
  proof cases
    case 1
    then have "fl64 (of_int i) \<le> fl64 0" by (intro fl64_mono) simp
    then have "fl (fl64 (of_int i)) \<le> fl 0" unfolding fl64_zero by (rule fl_mono)
    then have "clampf (fl (fl64 (of_int i))) 0 (of_int hi) = 0"
      using assms by (simp add: clampf_def fl_zero)
    with 1 assms show ?thesis using f2i_of_int [of 0] by simp
  next
    case 2
    with assms have "fl (fl64 (of_int i)) = of_int i" by (simp add: fl64_of_int fl_of_int)
    with 2 have "clampf (fl (fl64 (of_int i))) 0 (of_int hi) = of_int i"
      by (simp add: clampf_def)
    with 2 show ?thesis by (simp add: f2i_of_int)
  next
    case 3
    have h: "fl (fl64 (of_int hi)) = of_int hi" using assms by (simp add: fl64_of_int fl_of_int)
    from 3 have "fl64 (of_int hi) \<le> fl64 (of_int i)" by (intro fl64_mono) simp
    then have "fl (fl64 (of_int hi)) \<le> fl (fl64 (of_int i))" by (rule fl_mono)
    then have "of_int hi \<le> fl (fl64 (of_int i))" by (simp only: h)
    then have "clampf (fl (fl64 (of_int i))) 0 (of_int hi) = of_int hi"
      using assms by (auto simp add: clampf_def)
    with 3 assms show ?thesis by (simp add: f2i_of_int)
  qed
qed

lemma reload_channel: "f2i (clampf (fl (fl64 (of_int i))) 0 16) = min 16 (max 0 i)"
  using reload_int [of 16 i] by simp

lemma reload_note: "f2i (clampf (fl (fl64 (of_int i))) 0 127) = min 127 (max 0 i)"
  using reload_int [of 127 i] by simp

lemma reload_mode: "mode_of_int (f2i (clampf (fl (fl64 (of_int (int_of_mode m)))) 0 1)) = m"
  using reload_int [of 1 "int_of_mode m"]
  by (cases m) (simp_all add: int_of_mode_def mode_of_int_def)

lemma reload_curve: "curve_of_int (f2i (clampf (fl (fl64 (of_int (int_of_curve c)))) 0 3)) = c"
  using reload_int [of 3 "int_of_curve c"]
  by (cases c) (simp_all add: int_of_curve_def curve_of_int_def)

lemma set_state_json:
  assumes "0 \<le> depth inst" "0 \<le> attack inst" "0 \<le> hold inst" "0 \<le> release inst"
    "0 \<le> vel_sens inst"
  shows "v2_set_param fresh ''state'' (state_json inst) =
    Some (fresh\<lparr>channel := min 16 (max 0 (channel inst)),
      trigger_note := min 127 (max 0 (trigger_note inst)),
      mode := mode inst,
      depth := clampf (fl (fl64 (real (nat (rne (depth inst * 1000))) / 1000))) 0 1,
      attack := clampf (fl (fl64 (real (nat (rne (attack inst * 1000))) / 1000))) 0 1,
      hold := clampf (fl (fl64 (real (nat (rne (hold inst * 1000))) / 1000))) 0 1,
      release := clampf (fl (fl64 (real (nat (rne (release inst * 1000))) / 1000))) 0 1,
      curve := curve inst,
      vel_sens := clampf (fl (fl64 (real (nat (rne (vel_sens inst * 1000))) / 1000))) 0 1\<rparr>)"
  using assms
  by (simp add: v2_set_param_def load_named_def load_number_def state_number state_number_float
      state_string reload_channel reload_note reload_mode reload_curve)

lemma milli_reload:
  assumes "milli p"
  shows "0 \<le> p" "p \<le> 1" "clampf (fl (fl64 (real (nat (rne (p * 1000))) / 1000))) 0 1 = p"
proof -
  from assms obtain k where k: "k \<le> 1000" "p = fl (fl64 (real k / 1000))"
    unfolding milli_def by blast
  define y where "y = real k / 1000"
  have y: "0 \<le> y" "y \<le> 1" using k(1) by (simp_all add: y_def)
  have z0: "0 \<le> fl64 y" using y(1) by (rule fl64_nonneg)
  have "fl64 y \<le> fl64 1" using y(2) by (rule fl64_mono)
  then have z1: "fl64 y \<le> 1" using fl64_of_int [of 1] by simp
  have p: "p = fl (fl64 y)" by (simp add: k y_def)
  show p0: "0 \<le> p" unfolding p using z0 by (rule fl_nonneg)
  show p1: "p \<le> 1" unfolding p using z1 by (rule fl_le_1)
  have "\<bar>fl64 y - y\<bar> \<le> 2 powi (0 - 53)"
    using y by (intro fl64_err_le) simp_all
  moreover have "\<bar>fl (fl64 y) - fl64 y\<bar> \<le> 2 powi (-24)"
    using z0 z1 by (intro fl_err_two) simp
  ultimately have "\<bar>p - y\<bar> \<le> 2 powi (-24) + 2 powi (0 - 53)" unfolding p by linarith
  also have "\<dots> < 1 / 4000" by (simp add: power_int_minus)
  finally have "\<bar>p - y\<bar> * 1000 < 1 / 4" by simp
  moreover have "\<bar>p * 1000 - real k\<bar> = \<bar>p - y\<bar> * 1000" by (simp add: y_def abs_if)
  ultimately have "\<bar>p * 1000 - of_int (int k)\<bar> < 1/2" by simp
  then have "rne (p * 1000) = int k" by (rule rne_near)
  then have "fl (fl64 (real (nat (rne (p * 1000))) / 1000)) = p" by (simp add: k)
  then show "clampf (fl (fl64 (real (nat (rne (p * 1000))) / 1000))) 0 1 = p"
    using p0 p1 by (simp add: clampf_def)
qed

lemma channel_name_clamped: "channel_name (max 0 i) = channel_name i"
  by (simp add: channel_name_def max_def)

lemma atof_0249: "atof ''0.0249'' = Some (fl64 (249 / 10000))"
  by (simp add: str_eval)

lemma depth_0249: "clampf (fl (fl64 (249 / 10000))) 0 1 = 6684043 / 268435456"
  by (simp add: clampf_def f32_calc)

lemma set_depth_0249:
  "v2_set_param inst ''depth'' ''0.0249'' = Some (inst\<lparr>depth := 6684043 / 268435456\<rparr>)"
  by (simp add: v2_set_param_def atof_0249 depth_0249)

lemma depth_0249_reloaded:
  "clampf (fl (fl64 (real (nat (rne (6684043 / 268435456 * 1000))) / 1000))) 0 1 =
     13421773 / 536870912"
  by (simp add: clampf_def f32_calc)

lemma show_depth_0249:
  "show_fixed 2 (6684043 / 268435456) = ''0.02''"
  "show_fixed 2 (13421773 / 536870912) = ''0.03''"
  by (simp_all add: str_eval fixed_digits_2 rne_def)

lemma set_channel_17:
  "v2_set_param inst ''channel'' ''17'' = Some (inst\<lparr>channel := 272\<rparr>)"
  by (simp add: v2_set_param_def parse_channel_17)

lemma set_channel_neg:
  "v2_set_param inst ''channel'' ''-1'' = Some (inst\<lparr>channel := - 15\<rparr>)"
  by (simp add: v2_set_param_def parse_channel_neg)

lemma get_state: "v2_get_param inst ''state'' = Some (state_json inst)"
  by (simp add: v2_get_param_def)

lemma get_depth: "v2_get_param inst ''depth'' = Some (show_fixed 2 (depth inst))"
  by (simp add: v2_get_param_def)

lemma get_channel: "v2_get_param inst ''channel'' = Some (channel_name (channel inst))"
  by (simp add: v2_get_param_def)

lemma channel_names: "channel_name 272 = ''Omni''" "channel_name 16 = ''16''"
  by (simp_all add: channel_name_def)

lemma milli_default:
  "milli (depth (v2_create_instance d c))" "milli (attack (v2_create_instance d c))"
  "milli (hold (v2_create_instance d c))" "milli (release (v2_create_instance d c))"
  "milli (vel_sens (v2_create_instance d c))"
proof -
  have "fl (fl64 (real 1000 / 1000)) = 1" by (simp add: f32_calc)
  then show "milli (depth (v2_create_instance d c))"
    unfolding milli_def create_fields by (intro exI [of _ 1000]) simp
  have "fl (fl64 (real 100 / 1000)) = fl (1/10)" by (simp add: f32_calc)
  then show "milli (attack (v2_create_instance d c))"
    unfolding milli_def v2_create_instance_def by (intro exI [of _ 100]) simp
  have "fl (fl64 (real 200 / 1000)) = fl (2/10)" by (simp add: f32_calc)
  then show "milli (hold (v2_create_instance d c))"
    unfolding milli_def v2_create_instance_def by (intro exI [of _ 200]) simp
  have "fl (fl64 (real 300 / 1000)) = fl (3/10)" by (simp add: f32_calc)
  then show "milli (release (v2_create_instance d c))"
    unfolding milli_def v2_create_instance_def by (intro exI [of _ 300]) simp
  have "fl (fl64 (real 0 / 1000)) = 0" by (simp add: f32_calc)
  then show "milli (vel_sens (v2_create_instance d c))"
    unfolding milli_def create_fields by (intro exI [of _ 0]) simp
qed

lemma show_default:
  "show_fixed 2 1 = ''1.00''" "show_fixed 2 (fl (1/10)) = ''0.10''"
  "show_fixed 2 (fl (2/10)) = ''0.20''" "show_fixed 2 (fl (3/10)) = ''0.30''"
  "show_fixed 2 0 = ''0.00''"
  by (simp_all add: str_eval fixed_digits_2 f32_calc)

lemma get_default:
  "map (v2_get_param (v2_create_instance d c))
     [''channel'', ''trigger_note'', ''mode'', ''depth'', ''attack'', ''hold'', ''release'',
      ''curve'', ''vel_sens''] =
   [Some ''1'', Some ''36'', Some ''Trigger'', Some ''1.00'', Some ''0.10'', Some ''0.20'',
    Some ''0.30'', Some ''Linear'', Some ''0.00'']"
proof -
  have f: "attack (v2_create_instance d c) = fl (1/10)" "hold (v2_create_instance d c) = fl (2/10)"
    "release (v2_create_instance d c) = fl (3/10)"
    by (simp_all add: v2_create_instance_def)
  show ?thesis
    using show_default
    by (simp add: v2_get_param_def create_fields f channel_name_def mode_name_def
        curve_name_def show_int_def show_nat.simps digit_char_def)
qed

lemma reload_depth:
  assumes "0 \<le> depth inst" "0 \<le> attack inst" "0 \<le> hold inst" "0 \<le> release inst"
    "0 \<le> vel_sens inst"
  shows "do {
      loaded \<leftarrow> v2_set_param fresh ''state'' (state_json inst);
      v2_get_param loaded ''depth''
    } = Some (show_fixed 2 (clampf (fl (fl64 (real (nat (rne (depth inst * 1000))) / 1000))) 0 1))"
  by (simp add: set_state_json [OF assms] get_depth)

lemma reload_channel_name:
  assumes "0 \<le> depth inst" "0 \<le> attack inst" "0 \<le> hold inst" "0 \<le> release inst"
    "0 \<le> vel_sens inst"
  shows "do {
      loaded \<leftarrow> v2_set_param fresh ''state'' (state_json inst);
      v2_get_param loaded ''channel''
    } = Some (channel_name (min 16 (max 0 (channel inst))))"
  by (simp add: set_state_json [OF assms] get_channel)

lemma milli_intro: "k \<le> 1000 \<Longrightarrow> milli (fl (fl64 (real k / 1000)))"
  unfolding milli_def by blast

lemma show_custom:
  "show_fixed 2 (fl (fl64 (750 / 1000))) = ''0.75''"
  "show_fixed 2 (fl (fl64 (5 / 1000))) = ''0.00''"
  "show_fixed 2 (fl (fl64 (125 / 1000))) = ''0.12''"
  "show_fixed 2 (fl (fl64 (999 / 1000))) = ''1.00''"
  "show_fixed 2 (fl (fl64 (500 / 1000))) = ''0.50''"
  by (simp_all add: str_eval fixed_digits_2 f32_calc)

lemma get_custom:
  "map (v2_get_param ((v2_create_instance [] [])\<lparr>channel := 0, trigger_note := 60,
       mode := MODE_GATE, depth := fl (fl64 (750 / 1000)), attack := fl (fl64 (5 / 1000)),
       hold := fl (fl64 (125 / 1000)), release := fl (fl64 (999 / 1000)), curve := CURVE_PUMP,
       vel_sens := fl (fl64 (500 / 1000))\<rparr>))
     [''channel'', ''trigger_note'', ''mode'', ''depth'', ''attack'', ''hold'', ''release'',
      ''curve'', ''vel_sens''] =
   [Some ''Omni'', Some ''60'', Some ''Gate'', Some ''0.75'', Some ''0.00'', Some ''0.12'',
    Some ''1.00'', Some ''Pump'', Some ''0.50'']"
  using show_custom
  by (simp add: v2_get_param_def channel_name_def mode_name_def
      curve_name_def show_int_def show_nat.simps digit_char_def)
section \<open>Results\<close>

subsection \<open>The zero-length cascade of \<^verbatim>\<open>start_attack\<close>\<close>

text \<open>
  Claim C3. For every instance, \<open>start_attack\<close> takes the attack length from the attack
  duration. When that length is positive the instance is in Attack at position 0 with
  that length. When it is not positive, the envelope value becomes
  \<open>1 - vel_depth\<close> and the instance enters Hold with the hold length; if the hold length
  is not positive either and the mode is Trigger, it enters Release with the release
  length. In Gate mode it stays in Hold, whatever the hold length.
\<close>

theorem start_attack_cascade:
  "(0 < attack_samples inst \<longrightarrow>
      start_attack inst = inst\<lparr>phase := PHASE_ATTACK, phase_pos := 0,
                                phase_len := attack_samples inst\<rparr>) \<and>
   (attack_samples inst \<le> 0 \<and> (0 < hold_samples inst \<or> mode inst = MODE_GATE) \<longrightarrow>
      start_attack inst = inst\<lparr>envelope := fsub 1 (vel_depth inst), phase := PHASE_HOLD,
                                phase_pos := 0, phase_len := hold_samples inst\<rparr>) \<and>
   (attack_samples inst \<le> 0 \<and> hold_samples inst \<le> 0 \<and> mode inst = MODE_TRIGGER \<longrightarrow>
      start_attack inst = inst\<lparr>envelope := fsub 1 (vel_depth inst), phase := PHASE_RELEASE,
                                phase_pos := 0, phase_len := release_samples inst\<rparr>)"
  by (auto simp: start_attack_def Let_def attack_samples_def hold_samples_def
      release_samples_def)

theorem start_attack_cascade_witness:
  "(0 < attack_samples (v2_create_instance [] []) \<and>
    start_attack (v2_create_instance [] []) =
      (v2_create_instance [] [])\<lparr>phase := PHASE_ATTACK, phase_pos := 0, phase_len := 220\<rparr>) \<and>
   (attack_samples ((v2_create_instance [] [])\<lparr>attack := 0\<rparr>) \<le> 0 \<and>
    0 < hold_samples ((v2_create_instance [] [])\<lparr>attack := 0\<rparr>) \<and>
    start_attack ((v2_create_instance [] [])\<lparr>attack := 0\<rparr>) =
      (v2_create_instance [] [])\<lparr>attack := 0, envelope := 1, phase := PHASE_HOLD,
         phase_pos := 0, phase_len := 4410\<rparr>) \<and>
   (attack_samples ((v2_create_instance [] [])\<lparr>attack := 0, hold := 0\<rparr>) \<le> 0 \<and>
    hold_samples ((v2_create_instance [] [])\<lparr>attack := 0, hold := 0\<rparr>) \<le> 0 \<and>
    mode ((v2_create_instance [] [])\<lparr>attack := 0, hold := 0\<rparr>) = MODE_TRIGGER \<and>
    start_attack ((v2_create_instance [] [])\<lparr>attack := 0, hold := 0\<rparr>) =
      (v2_create_instance [] [])\<lparr>attack := 0, hold := 0, envelope := 1, phase := PHASE_RELEASE,
         phase_pos := 0, phase_len := 13230\<rparr>) \<and>
   (attack_samples ((v2_create_instance [] [])\<lparr>attack := 0, hold := 0, mode := MODE_GATE\<rparr>) \<le> 0 \<and>
    mode ((v2_create_instance [] [])\<lparr>attack := 0, hold := 0, mode := MODE_GATE\<rparr>) = MODE_GATE \<and>
    start_attack ((v2_create_instance [] [])\<lparr>attack := 0, hold := 0, mode := MODE_GATE\<rparr>) =
      (v2_create_instance [] [])\<lparr>attack := 0, hold := 0, mode := MODE_GATE, envelope := 1,
         phase := PHASE_HOLD, phase_pos := 0, phase_len := 0\<rparr>)"
proof -
  have a: "attack_samples (v2_create_instance [] []) = 220"
    by (simp add: attack_samples_def ms_to_samples_def v2_create_instance_def SAMPLE_RATE_def f32_eval)
  have b: "attack_samples ((v2_create_instance [] [])\<lparr>attack := 0\<rparr>) = 0"
          "hold_samples ((v2_create_instance [] [])\<lparr>attack := 0\<rparr>) = 4410"
    by (simp_all add: attack_samples_def hold_samples_def ms_to_samples_def v2_create_instance_def SAMPLE_RATE_def f32_eval)
  have c: "attack_samples ((v2_create_instance [] [])\<lparr>attack := 0, hold := 0\<rparr>) = 0"
          "hold_samples ((v2_create_instance [] [])\<lparr>attack := 0, hold := 0\<rparr>) = 0"
          "release_samples ((v2_create_instance [] [])\<lparr>attack := 0, hold := 0\<rparr>) = 13230"
    by (simp_all add: attack_samples_def hold_samples_def release_samples_def ms_to_samples_def v2_create_instance_def SAMPLE_RATE_def f32_eval)
  have d: "attack_samples ((v2_create_instance [] [])\<lparr>attack := 0, hold := 0, mode := MODE_GATE\<rparr>) = 0"
          "hold_samples ((v2_create_instance [] [])\<lparr>attack := 0, hold := 0, mode := MODE_GATE\<rparr>) = 0"
    by (simp_all add: attack_samples_def hold_samples_def ms_to_samples_def v2_create_instance_def SAMPLE_RATE_def f32_eval)
  have e: "fsub 1 0 = 1" by (simp add: f32_eval)
  show ?thesis
    using start_attack_cascade [of "v2_create_instance [] []"]
      start_attack_cascade [of "(v2_create_instance [] [])\<lparr>attack := 0\<rparr>"]
      start_attack_cascade [of "(v2_create_instance [] [])\<lparr>attack := 0, hold := 0\<rparr>"]
      start_attack_cascade [of "(v2_create_instance [] [])\<lparr>attack := 0, hold := 0, mode := MODE_GATE\<rparr>"]
    by (simp add: a b c d e create_fields)
qed

subsection \<open>Messages that are dropped\<close>

text \<open>
  Claim C9, as the code has it. A message of fewer than three bytes, a message on another
  channel while the channel filter is positive, and a message for another note leave
  the whole instance as it was. The filter of the code is \<open>channel > 0\<close>: a negative
  channel acts like 0 (omni), so "nonzero" in the claim is "positive" here.
\<close>

theorem on_midi_dropped:
  "length msg < 3 \<or>
   (0 < channel inst \<and> uint (((msg ! 0) AND 0x0F) + 1) \<noteq> channel inst) \<or>
   uint (msg ! 1) \<noteq> trigger_note inst
   \<Longrightarrow> ducker_on_midi inst msg = inst"
  by (auto simp: ducker_on_midi_def Let_def)

theorem on_midi_dropped_witness:
  "length [0x90, 36 :: 8 word] < 3 \<and>
   ducker_on_midi (v2_create_instance [] []) [0x90, 36] = v2_create_instance [] [] \<and>
   0 < channel (v2_create_instance [] []) \<and>
   uint ((([0x91, 36, 100 :: 8 word] ! 0) AND 0x0F) + 1) \<noteq> channel (v2_create_instance [] []) \<and>
   ducker_on_midi (v2_create_instance [] []) [0x91, 36, 100] = v2_create_instance [] [] \<and>
   uint ([0x90, 37, 100 :: 8 word] ! 1) \<noteq> trigger_note (v2_create_instance [] []) \<and>
   ducker_on_midi (v2_create_instance [] []) [0x90, 37, 100] = v2_create_instance [] []"
  using on_midi_dropped [of "[0x90, 36]" "v2_create_instance [] []"]
    on_midi_dropped [of "[0x91, 36, 100]" "v2_create_instance [] []"]
    on_midi_dropped [of "[0x90, 37, 100]" "v2_create_instance [] []"]
  by (simp add: create_fields)

theorem on_midi_negative_channel_counterexample:
  "channel ((v2_create_instance [] [])\<lparr>channel := -15\<rparr>) \<noteq> 0 \<and>
   uint ((([0x90, 36, 100 :: 8 word] ! 0) AND 0x0F) + 1)
     \<noteq> channel ((v2_create_instance [] [])\<lparr>channel := -15\<rparr>) \<and>
   ducker_on_midi ((v2_create_instance [] [])\<lparr>channel := -15\<rparr>) [0x90, 36, 100]
     \<noteq> (v2_create_instance [] [])\<lparr>channel := -15\<rparr>"
proof -
  have "active_notes (ducker_on_midi ((v2_create_instance [] [])\<lparr>channel := -15\<rparr>)
          [0x90, 36, 100]) = 1"
    by (simp add: ducker_on_midi_def Let_def create_fields start_attack_def)
  then have "ducker_on_midi ((v2_create_instance [] [])\<lparr>channel := -15\<rparr>) [0x90, 36, 100]
     \<noteq> (v2_create_instance [] [])\<lparr>channel := -15\<rparr>"
    by (auto simp: create_fields)
  then show ?thesis by (simp add: create_fields)
qed

subsection \<open>The concrete Trigger scenario\<close>

text \<open>
  Claim C1. In the scenario configuration in Trigger mode, after the note-on
  \<open>[0x90, 36, 127]\<close> (channel 1, note 36, velocity 127), the gain is exactly 0 in
  iterations 0 to 2204 of the block processor and exactly 1 in iteration 2205, and the
  instance is Idle after iteration 2205. Accordingly a block of 2206 frames comes out
  zeroed in its first 2205 frames and unchanged in frame 2205.
\<close>

theorem trigger_scenario:
  "(\<forall>k\<le>2204. gain_at (ducker_on_midi (scenario_instance MODE_TRIGGER) [0x90, 36, 127]) k = 0) \<and>
   gain_at (ducker_on_midi (scenario_instance MODE_TRIGGER) [0x90, 36, 127]) 2205 = 1 \<and>
   phase (run_samples 2206 (ducker_on_midi (scenario_instance MODE_TRIGGER) [0x90, 36, 127]))
     = PHASE_IDLE \<and>
   (\<forall>audio. length audio = 2 * 2206 \<longrightarrow>
      (\<exists>out. v2_process_block (ducker_on_midi (scenario_instance MODE_TRIGGER) [0x90, 36, 127])
               audio 2206
             = Some (run_samples 2206
                 (ducker_on_midi (scenario_instance MODE_TRIGGER) [0x90, 36, 127]), out) \<and>
            (\<forall>j<2 * 2205. out ! j = 0) \<and>
            out ! (2 * 2205) = audio ! (2 * 2205) \<and>
            out ! (2 * 2205 + 1) = audio ! (2 * 2205 + 1)))"
proof -
  define s0 where "s0 = ducker_on_midi (scenario_instance MODE_TRIGGER) [0x90, 36, 127]"
  note tr = trigger_scenario_trace [folded s0_def]
  have g0: "gain_at s0 k = 0" if "k \<le> 2204" for k
  proof (cases "k \<le> 2203")
    case True
    then show ?thesis by (simp add: gain_at_def tr(1))
  next
    case False
    with that have "k = 2204" by simp
    then have "Suc k = 2205" by simp
    then show ?thesis by (simp add: gain_at_def tr(2))
  qed
  have g1: "gain_at s0 2205 = 1"
  proof -
    have "Suc 2205 = 2206" by simp
    then show ?thesis by (simp add: gain_at_def tr(3))
  qed
  have idle: "phase (run_samples 2206 s0) = PHASE_IDLE" by (simp add: tr(3))
  have blk: "\<exists>out. v2_process_block s0 audio 2206 = Some (run_samples 2206 s0, out) \<and>
            (\<forall>j<2 * 2205. out ! j = 0) \<and>
            out ! (2 * 2205) = audio ! (2 * 2205) \<and>
            out ! (2 * 2205 + 1) = audio ! (2 * 2205 + 1)"
    if len: "length audio = 2 * 2206" for audio
  proof -
    define res where "res = process_frames 0 2206 s0 audio"
    have v: "v2_process_block s0 audio 2206 = Some res"
      using len by (simp add: v2_process_block_def res_def)
    have f: "fst res = run_samples 2206 s0"
      using process_frames_inst [of 0 2206 s0 audio] by (simp add: res_def)
    have o: "snd res ! (2 * k) = apply_gain (gain_at s0 k) (audio ! (2 * k)) \<and>
             snd res ! (2 * k + 1) = apply_gain (gain_at s0 k) (audio ! (2 * k + 1))"
      if "k < 2206" for k
      using process_frames_out [of 0 k 2206 audio s0] that len by (simp add: res_def)
    have z: "snd res ! j = 0" if "j < 2 * 2205" for j
    proof -
      have k: "j div 2 \<le> 2204" "j div 2 < 2206" using that by simp_all
      show ?thesis
      proof (cases "even j")
        case True
        then have "j = 2 * (j div 2)" by simp
        then show ?thesis using o [OF k(2)] g0 [OF k(1)] by (simp add: apply_gain_0)
      next
        case False
        then have "j = 2 * (j div 2) + 1" by simp
        then show ?thesis using o [OF k(2)] g0 [OF k(1)] by (simp add: apply_gain_0)
      qed
    qed
    have l: "snd res ! (2 * 2205) = audio ! (2 * 2205)"
      "snd res ! (2 * 2205 + 1) = audio ! (2 * 2205 + 1)"
      using o [of 2205] by (simp_all add: g1 apply_gain_1)
    have "v2_process_block s0 audio 2206 = Some (run_samples 2206 s0, snd res)"
      using v f by (cases res) simp
    with z l show ?thesis by blast
  qed
  show ?thesis
    unfolding s0_def [symmetric] using g0 g1 idle blk by blast
qed

theorem trigger_scenario_witness:
  "(2204::nat) \<le> 2204 \<and>
   gain_at (ducker_on_midi (scenario_instance MODE_TRIGGER) [0x90, 36, 127]) 2204 = 0 \<and>
   gain_at (ducker_on_midi (scenario_instance MODE_TRIGGER) [0x90, 36, 127]) 0 = 0"
  using trigger_scenario by simp

subsection \<open>Gain bounds of a Trigger cycle\<close>

text \<open>
  Claim C4. In Trigger mode, after a qualifying note-on, for every attack, hold and
  release setting (non-negative, as every write clamps them), with depth and velocity
  sensitivity in \<open>[0, 1]\<close>: the gain of every processed sample lies between
  \<open>1 - vel_depth\<close> (as the code computes it) and 1, and from the sample whose index is
  the total cycle length (attack + hold + release samples) on, the gain is exactly 1
  and the instance is Idle.
\<close>

theorem trigger_cycle_gain:
  assumes m: "mode inst = MODE_TRIGGER"
    and q: "qualifies inst msg" "is_note_on msg"
    and dom: "0 \<le> depth inst" "depth inst \<le> 1" "0 \<le> vel_sens inst" "vel_sens inst \<le> 1"
    and dur: "0 \<le> attack inst" "0 \<le> hold inst" "0 \<le> release inst"
  shows "(fsub 1 (vel_depth (ducker_on_midi inst msg)) \<le> gain_at (ducker_on_midi inst msg) k \<and>
          gain_at (ducker_on_midi inst msg) k \<le> 1) \<and>
         (attack_samples inst + hold_samples inst + release_samples inst \<le> int k \<longrightarrow>
            gain_at (ducker_on_midi inst msg) k = 1 \<and>
            phase (run_samples (Suc k) (ducker_on_midi inst msg)) = PHASE_IDLE)"
proof -
  define inst1 where "inst1 = inst\<lparr>active_notes := active_notes inst + 1,
      vel_depth := fmul (depth inst) (velocity_scale (vel_sens inst) (msg ! 2))\<rparr>"
  define s where "s = ducker_on_midi inst msg"
  have s: "s = start_attack inst1"
    unfolding s_def inst1_def using q by (rule on_midi_note_on)
  have d: "vel_depth s = fmul (depth inst) (velocity_scale (vel_sens inst) (msg ! 2))"
    by (simp add: s start_attack_config inst1_def)
  note b = note_depth_bounds [OF dom, of "msg ! 2"]
  have inv: "phase_inv s" unfolding s by (rule phase_inv_start_attack)
  have ni: "phase s \<noteq> PHASE_IDLE" unfolding s by (rule start_attack_not_idle)
  then have env: "phase s = PHASE_IDLE \<longrightarrow> envelope s = 1" by simp
  have ms: "mode s = MODE_TRIGGER" by (simp add: s start_attack_config inst1_def m)
  have part1: "fsub 1 (vel_depth s) \<le> gain_at s k \<and> gain_at s k \<le> 1"
    using b inv env by (intro gain_at_bounds) (simp_all add: d)
  have part2: "gain_at s k = 1 \<and> phase (run_samples (Suc k) s) = PHASE_IDLE"
    if le: "attack_samples inst + hold_samples inst + release_samples inst \<le> int k"
  proof -
    have sm: "attack_samples inst1 = attack_samples inst" "hold_samples inst1 = hold_samples inst"
      "release_samples inst1 = release_samples inst"
      by (simp_all add: inst1_def attack_samples_def hold_samples_def release_samples_def)
    have "mode inst1 = MODE_TRIGGER" by (simp add: inst1_def m)
    then have r: "remaining s = max 0 (attack_samples inst) + max 0 (hold_samples inst)
        + max 1 (release_samples inst)"
      unfolding s by (simp add: remaining_start_attack sm)
    have nn: "0 \<le> attack_samples inst" "0 \<le> hold_samples inst" "0 \<le> release_samples inst"
      unfolding attack_samples_def hold_samples_def release_samples_def
      using dur by (simp_all add: samples_nonneg)
    have "remaining s \<le> int (Suc k)" using r nn le by simp
    with ms inv env have "phase (run_samples (Suc k) s) = PHASE_IDLE \<and>
        envelope (run_samples (Suc k) s) = 1"
      by (rule reach_idle)
    then show ?thesis by (simp add: gain_at_def)
  qed
  show ?thesis using part1 part2 by (simp add: s_def)
qed

theorem trigger_cycle_gain_witness:
  "mode (v2_create_instance [] []) = MODE_TRIGGER \<and>
   qualifies (v2_create_instance [] []) [0x90, 36, 100] \<and> is_note_on [0x90, 36, 100] \<and>
   0 \<le> depth (v2_create_instance [] []) \<and> depth (v2_create_instance [] []) \<le> 1 \<and>
   0 \<le> vel_sens (v2_create_instance [] []) \<and> vel_sens (v2_create_instance [] []) \<le> 1 \<and>
   0 \<le> attack (v2_create_instance [] []) \<and> 0 \<le> hold (v2_create_instance [] []) \<and>
   0 \<le> release (v2_create_instance [] []) \<and>
   attack_samples (v2_create_instance [] []) + hold_samples (v2_create_instance [] [])
     + release_samples (v2_create_instance [] []) \<le> int 17860 \<and>
   fsub 1 (vel_depth (ducker_on_midi (v2_create_instance [] []) [0x90, 36, 100]))
     \<le> gain_at (ducker_on_midi (v2_create_instance [] []) [0x90, 36, 100]) 17860 \<and>
   gain_at (ducker_on_midi (v2_create_instance [] []) [0x90, 36, 100]) 17860 = 1 \<and>
   phase (run_samples (Suc 17860) (ducker_on_midi (v2_create_instance [] []) [0x90, 36, 100]))
     = PHASE_IDLE"
  using trigger_cycle_gain [of "v2_create_instance [] []" "[0x90, 36, 100]" 17860]
  by (simp add: create_fields create_durations note_on_default default_samples)

subsection \<open>Position and length in reachable states\<close>




subsection \<open>Velocity scaling\<close>

text \<open>
  Claim C5, as the code has it. For a qualifying note-on, with a velocity sensitivity
  of at least 0, \<open>vel_depth\<close> is \<open>depth * (1 - vel_sens + vel_sens * (velocity / 127))\<close>
  in single-precision arithmetic. With sensitivity 0 it is the depth for every velocity;
  with sensitivity 1 it is the depth at velocity 127, and at the least note-on velocity,
  which is 1, it is \<open>depth * (1/127)\<close>, not 0. A message with velocity 0 is a note-off
  and leaves \<open>vel_depth\<close> as it was.
\<close>

theorem note_on_effective_depth:
  assumes "qualifies inst msg" "0 \<le> vel_sens inst"
  shows "(is_note_on msg \<longrightarrow>
           vel_depth (ducker_on_midi inst msg) =
             fmul (depth inst) (fadd (fsub 1 (vel_sens inst))
               (fmul (vel_sens inst) (fdiv (i2f (uint (msg ! 2))) 127)))) \<and>
         (is_note_on msg \<and> vel_sens inst = 0 \<and> is_f32 (depth inst) \<longrightarrow>
           vel_depth (ducker_on_midi inst msg) = depth inst) \<and>
         (is_note_on msg \<and> vel_sens inst = 1 \<and> msg ! 2 = 127 \<and> is_f32 (depth inst) \<longrightarrow>
           vel_depth (ducker_on_midi inst msg) = depth inst) \<and>
         (is_note_on msg \<and> vel_sens inst = 1 \<and> msg ! 2 = 1 \<longrightarrow>
           vel_depth (ducker_on_midi inst msg) = fmul (depth inst) (fl (1/127))) \<and>
         ((msg ! 0) AND 0xF0 = 0x90 \<and> msg ! 2 = 0 \<longrightarrow>
           vel_depth (ducker_on_midi inst msg) = vel_depth inst)"
proof -
  have d: "vel_depth (ducker_on_midi inst msg) =
      fmul (depth inst) (velocity_scale (vel_sens inst) (msg ! 2))" if "is_note_on msg"
    using assms(1) that by (simp add: on_midi_note_on start_attack_config)
  have one: "fmul x 1 = x" if "is_f32 x" for x
    using that by (simp add: fmul_def is_f32_def)
  have z: "velocity_scale 0 v = 1" for v by (simp add: velocity_scale_def)
  show ?thesis
    using d velocity_scale_formula [OF assms(2), of "msg ! 2"] on_midi_velocity_0 [OF assms(1)]
    by (auto simp: one z velocity_scale_full velocity_scale_least)
qed

theorem note_on_effective_depth_witness:
  "qualifies ((v2_create_instance [] [])\<lparr>vel_sens := 1\<rparr>) [0x90, 36, 127] \<and>
   0 \<le> vel_sens ((v2_create_instance [] [])\<lparr>vel_sens := 1\<rparr>) \<and>
   is_note_on [0x90, 36, 127] \<and>
   vel_sens ((v2_create_instance [] [])\<lparr>vel_sens := 1\<rparr>) = 1 \<and>
   [0x90, 36, 127 :: 8 word] ! 2 = 127 \<and>
   is_f32 (depth ((v2_create_instance [] [])\<lparr>vel_sens := 1\<rparr>)) \<and>
   vel_depth (ducker_on_midi ((v2_create_instance [] [])\<lparr>vel_sens := 1\<rparr>) [0x90, 36, 127]) = 1 \<and>
   qualifies (v2_create_instance [] []) [0x90, 36, 100] \<and>
   is_note_on [0x90, 36, 100] \<and>
   vel_sens (v2_create_instance [] []) = 0 \<and>
   vel_depth (ducker_on_midi (v2_create_instance [] []) [0x90, 36, 100]) = 1 \<and>
   qualifies (v2_create_instance [] []) [0x90, 36, 0] \<and>
   ([0x90, 36, 0 :: 8 word] ! 0) AND 0xF0 = 0x90 \<and> [0x90, 36, 0 :: 8 word] ! 2 = 0 \<and>
   vel_depth (ducker_on_midi (v2_create_instance [] []) [0x90, 36, 0]) = 0"
proof -
  have q: "qualifies ((v2_create_instance [] [])\<lparr>vel_sens := 1\<rparr>) [0x90, 36, 127]"
    "qualifies (v2_create_instance [] []) [0x90, 36, 100]"
    "qualifies (v2_create_instance [] []) [0x90, 36, 0]"
    by (simp_all add: qualifies_def create_fields)
  have n: "is_note_on [0x90, 36, 127]" "is_note_on [0x90, 36, 100]"
    by (simp_all add: is_note_on_def)
  show ?thesis
    using note_on_effective_depth [OF q(1)] note_on_effective_depth [OF q(2)]
      note_on_effective_depth [OF q(3)]
    by (simp add: q n create_fields is_f32_1)
qed

text \<open>With depth 1 and sensitivity 1, the note-on of velocity 1 gives a depth that is
  not 0.\<close>

theorem least_velocity_counterexample:
  "qualifies ((v2_create_instance [] [])\<lparr>vel_sens := 1\<rparr>) [0x90, 36, 1] \<and>
   is_note_on [0x90, 36, 1] \<and>
   vel_sens ((v2_create_instance [] [])\<lparr>vel_sens := 1\<rparr>) = 1 \<and>
   vel_depth (ducker_on_midi ((v2_create_instance [] [])\<lparr>vel_sens := 1\<rparr>) [0x90, 36, 1])
     = 2113665 / 268435456 \<and>
   vel_depth (ducker_on_midi ((v2_create_instance [] [])\<lparr>vel_sens := 1\<rparr>) [0x90, 36, 1])
     \<noteq> 0"
proof -
  have q: "qualifies ((v2_create_instance [] [])\<lparr>vel_sens := 1\<rparr>) [0x90, 36, 1]"
    "is_note_on [0x90, 36, 1]"
    by (simp_all add: qualifies_def is_note_on_def create_fields)
  have "vel_depth (ducker_on_midi ((v2_create_instance [] [])\<lparr>vel_sens := 1\<rparr>) [0x90, 36, 1])
     = fmul 1 (velocity_scale 1 1)"
    by (simp add: on_midi_note_on [OF q] start_attack_config create_fields)
  also have "\<dots> = 2113665 / 268435456"
    by (simp add: velocity_scale_least) (simp add: f32_eval)
  finally show ?thesis using q by (simp add: create_fields)
qed

subsection \<open>The stop event in Gate mode\<close>

text \<open>
  Claim C6. In Gate mode, a qualifying note-off that brings \<open>active_notes\<close> to 0 while
  the phase is Hold and the release length is 0 or less puts the instance in Idle with
  envelope exactly 1 at once, so that every following sample has gain 1 and no Release
  step is ever computed. A qualifying note-off that arrives in Release or Idle leaves
  phase, position, length, depth and envelope as they were, and in every state reached
  in Gate mode from an idle instance it leaves the whole instance unchanged. The witness
  is the scenario of the specification: the note-off after 1000 samples of Hold.
\<close>

theorem gate_stop_event:
  "(mode s = MODE_GATE \<and> phase s = PHASE_HOLD \<and> qualifies s msg \<and> is_note_off msg \<and>
    0 \<le> active_notes s \<and> active_notes s \<le> 1 \<and> release_samples s \<le> 0 \<longrightarrow>
      phase (ducker_on_midi s msg) = PHASE_IDLE \<and> envelope (ducker_on_midi s msg) = 1 \<and>
      gain_at (ducker_on_midi s msg) k = 1) \<and>
   ((phase s = PHASE_RELEASE \<or> phase s = PHASE_IDLE) \<and> qualifies s msg \<and> is_note_off msg \<longrightarrow>
      phase (ducker_on_midi s msg) = phase s \<and>
      phase_pos (ducker_on_midi s msg) = phase_pos s \<and>
      phase_len (ducker_on_midi s msg) = phase_len s \<and>
      vel_depth (ducker_on_midi s msg) = vel_depth s \<and>
      envelope (ducker_on_midi s msg) = envelope s) \<and>
   (mode s0 = MODE_GATE \<and> phase s0 = PHASE_IDLE \<and> active_notes s0 = 0 \<and>
    (phase (run_events s0 evs) = PHASE_RELEASE \<or> phase (run_events s0 evs) = PHASE_IDLE) \<and>
    qualifies (run_events s0 evs) msg \<and> is_note_off msg \<longrightarrow>
      ducker_on_midi (run_events s0 evs) msg = run_events s0 evs)"
proof -
  have a: "phase (ducker_on_midi s msg) = PHASE_IDLE \<and> envelope (ducker_on_midi s msg) = 1 \<and>
      gain_at (ducker_on_midi s msg) k = 1"
    if h: "mode s = MODE_GATE" "phase s = PHASE_HOLD" "qualifies s msg" "is_note_off msg"
      "0 \<le> active_notes s" "active_notes s \<le> 1" "release_samples s \<le> 0"
  proof -
    have p: "phase (ducker_on_midi s msg) = PHASE_IDLE" "envelope (ducker_on_midi s msg) = 1"
      using h by (simp_all add: on_midi_note_off Let_def start_release_def samples_state_upd)
    then have "run_samples (Suc k) (ducker_on_midi s msg) = ducker_on_midi s msg"
      by (intro run_idle)
    with p show ?thesis by (simp add: gain_at_def)
  qed
  have b: "phase (ducker_on_midi s msg) = phase s \<and>
      phase_pos (ducker_on_midi s msg) = phase_pos s \<and>
      phase_len (ducker_on_midi s msg) = phase_len s \<and>
      vel_depth (ducker_on_midi s msg) = vel_depth s \<and>
      envelope (ducker_on_midi s msg) = envelope s"
    if "phase s = PHASE_RELEASE \<or> phase s = PHASE_IDLE" "qualifies s msg" "is_note_off msg"
    using that by (auto simp: on_midi_note_off Let_def)
  have c: "ducker_on_midi (run_events s0 evs) msg = run_events s0 evs"
    if h: "mode s0 = MODE_GATE" "phase s0 = PHASE_IDLE" "active_notes s0 = 0"
      "phase (run_events s0 evs) = PHASE_RELEASE \<or> phase (run_events s0 evs) = PHASE_IDLE"
      "qualifies (run_events s0 evs) msg" "is_note_off msg"
  proof -
    have "active_notes (run_events s0 evs) = 0"
      using gate_released_run [of s0 evs] h by auto
    then show ?thesis
      using h(4,5,6) by (auto simp: on_midi_note_off Let_def)
  qed
  show ?thesis using a b c by blast
qed

theorem gate_stop_event_witness:
  "mode (run_samples 1000 (ducker_on_midi (scenario_instance MODE_GATE) [0x90, 36, 127])) = MODE_GATE \<and>
   phase (run_samples 1000 (ducker_on_midi (scenario_instance MODE_GATE) [0x90, 36, 127])) = PHASE_HOLD \<and>
   envelope (run_samples 1000 (ducker_on_midi (scenario_instance MODE_GATE) [0x90, 36, 127])) = 0 \<and>
   qualifies (run_samples 1000 (ducker_on_midi (scenario_instance MODE_GATE) [0x90, 36, 127]))
     [0x80, 36, 0] \<and>
   is_note_off [0x80, 36, 0] \<and>
   active_notes (run_samples 1000 (ducker_on_midi (scenario_instance MODE_GATE) [0x90, 36, 127])) = 1 \<and>
   release_samples (run_samples 1000 (ducker_on_midi (scenario_instance MODE_GATE) [0x90, 36, 127]))
     \<le> 0 \<and>
   phase (ducker_on_midi (run_samples 1000
     (ducker_on_midi (scenario_instance MODE_GATE) [0x90, 36, 127])) [0x80, 36, 0]) = PHASE_IDLE \<and>
   envelope (ducker_on_midi (run_samples 1000
     (ducker_on_midi (scenario_instance MODE_GATE) [0x90, 36, 127])) [0x80, 36, 0]) = 1 \<and>
   gain_at (ducker_on_midi (run_samples 1000
     (ducker_on_midi (scenario_instance MODE_GATE) [0x90, 36, 127])) [0x80, 36, 0]) 0 = 1 \<and>
   mode (scenario_instance MODE_GATE) = MODE_GATE \<and>
   phase (scenario_instance MODE_GATE) = PHASE_IDLE \<and>
   active_notes (scenario_instance MODE_GATE) = 0 \<and>
   phase (run_events (scenario_instance MODE_GATE)
     ((Midi [0x90, 36, 127] # replicate 1000 Sample) @ [Midi [0x80, 36, 0]])) = PHASE_IDLE \<and>
   ducker_on_midi (run_events (scenario_instance MODE_GATE)
     ((Midi [0x90, 36, 127] # replicate 1000 Sample) @ [Midi [0x80, 36, 0]])) [0x80, 36, 0] =
   run_events (scenario_instance MODE_GATE)
     ((Midi [0x90, 36, 127] # replicate 1000 Sample) @ [Midi [0x80, 36, 0]])"
proof -
  define s1 where "s1 = run_samples 1000 (ducker_on_midi (scenario_instance MODE_GATE) [0x90, 36, 127])"
  define s2 where "s2 = run_events (scenario_instance MODE_GATE)
     ((Midi [0x90, 36, 127] # replicate 1000 Sample) @ [Midi [0x80, 36, 0]])"
  have s1: "s1 = (scenario_instance MODE_GATE)\<lparr>active_notes := 1, vel_depth := 1, envelope := 0,
        phase := PHASE_HOLD, phase_pos := 1000, phase_len := 2205\<rparr>"
    unfolding s1_def by (rule gate_scenario_hold)
  have s2: "s2 = (scenario_instance MODE_GATE)\<lparr>active_notes := 0, vel_depth := 1, envelope := 1,
        phase := PHASE_IDLE, phase_pos := 0, phase_len := 0\<rparr>"
    unfolding s2_def run_events_append run_events_note_samples s1_def [symmetric]
    by (simp add: run_events_Cons run_events_Nil s1 gate_scenario_stop)
  have q: "qualifies s1 [0x80, 36, 0]" "qualifies s2 [0x80, 36, 0]"
    using note_off_36(1) [of MODE_GATE] by (simp_all add: s1 s2 qualifies_def)
  have f: "mode s1 = MODE_GATE" "phase s1 = PHASE_HOLD" "envelope s1 = 0" "active_notes s1 = 1"
    "release_samples s1 \<le> 0" "phase s2 = PHASE_IDLE"
    by (simp_all add: s1 s2 scenario_fields samples_state_upd scenario_samples)
  show ?thesis
    unfolding s1_def [symmetric] s2_def [symmetric]
    using gate_stop_event [of s1 "[0x80, 36, 0]" 0 "scenario_instance MODE_GATE"
        "(Midi [0x90, 36, 127] # replicate 1000 Sample) @ [Midi [0x80, 36, 0]]"]
    unfolding s2_def [symmetric]
    by (simp add: q f note_off_36 scenario_fields)
qed

subsection \<open>Overlapping notes in Gate mode\<close>

text \<open>
  Claim C7. A qualifying note-off that leaves \<open>active_notes\<close> positive only decrements
  the count: the release is not started. In Gate mode, after two qualifying note-ons and
  any number of samples that end in Hold, one qualifying note-off leaves the phase Hold
  and the count one above what it was before the two note-ons.
\<close>

theorem gate_overlapping_notes:
  "(qualifies s off \<and> is_note_off off \<and> 1 < active_notes s \<longrightarrow>
      ducker_on_midi s off = s\<lparr>active_notes := active_notes s - 1\<rparr>) \<and>
   (mode s = MODE_GATE \<and> 0 \<le> active_notes s \<and> qualifies s on \<and> is_note_on on \<and>
    qualifies s off \<and> is_note_off off \<and>
    phase (run_samples n (ducker_on_midi (ducker_on_midi s on) on)) = PHASE_HOLD \<longrightarrow>
      phase (ducker_on_midi (run_samples n (ducker_on_midi (ducker_on_midi s on) on)) off)
        = PHASE_HOLD \<and>
      active_notes (ducker_on_midi (run_samples n (ducker_on_midi (ducker_on_midi s on) on)) off)
        = active_notes s + 1)"
proof -
  have a: "ducker_on_midi s off = s\<lparr>active_notes := active_notes s - 1\<rparr>"
    if "qualifies s off" "is_note_off off" "1 < active_notes s" for s
    using that by (simp add: on_midi_note_off Let_def)
  have b: "phase (ducker_on_midi (run_samples n (ducker_on_midi (ducker_on_midi s on) on)) off)
        = PHASE_HOLD \<and>
      active_notes (ducker_on_midi (run_samples n (ducker_on_midi (ducker_on_midi s on) on)) off)
        = active_notes s + 1"
    if h: "mode s = MODE_GATE" "0 \<le> active_notes s" "qualifies s on" "is_note_on on"
      "qualifies s off" "is_note_off off"
      "phase (run_samples n (ducker_on_midi (ducker_on_midi s on) on)) = PHASE_HOLD"
  proof -
    define s1 where "s1 = ducker_on_midi s on"
    define s2 where "s2 = ducker_on_midi s1 on"
    define s3 where "s3 = run_samples n s2"
    have "qualifies s1 on = qualifies s on"
      unfolding s1_def by (rule qualifies_cong) (simp_all add: on_midi_filter_fields)
    with h(3) have q1: "qualifies s1 on" by simp
    have n1: "active_notes s1 = active_notes s + 1"
      unfolding s1_def by (simp add: on_midi_note_on [OF h(3,4)] start_attack_config)
    have n2: "active_notes s2 = active_notes s + 2"
      unfolding s2_def by (simp add: on_midi_note_on [OF q1 h(4)] start_attack_config n1)
    have n3: "active_notes s3 = active_notes s + 2"
      by (simp add: s3_def run_config n2)
    have "qualifies s3 off = qualifies s off"
      unfolding s3_def s2_def s1_def
      by (rule qualifies_cong) (simp_all add: on_midi_filter_fields run_filter_fields)
    with h(5) have q3: "qualifies s3 off" by simp
    have "ducker_on_midi s3 off = s3\<lparr>active_notes := active_notes s3 - 1\<rparr>"
      using q3 h(6) h(2) n3 by (intro a) simp_all
    then show ?thesis
      using h(7) n3 by (simp add: s3_def [symmetric] s2_def [symmetric] s1_def [symmetric])
  qed
  show ?thesis using a [of s] b by blast
qed

theorem gate_overlapping_notes_witness:
  "mode (scenario_instance MODE_GATE) = MODE_GATE \<and>
   0 \<le> active_notes (scenario_instance MODE_GATE) \<and>
   qualifies (scenario_instance MODE_GATE) [0x90, 36, 127] \<and> is_note_on [0x90, 36, 127] \<and>
   qualifies (scenario_instance MODE_GATE) [0x80, 36, 0] \<and> is_note_off [0x80, 36, 0] \<and>
   phase (run_samples 10 (ducker_on_midi (ducker_on_midi (scenario_instance MODE_GATE)
     [0x90, 36, 127]) [0x90, 36, 127])) = PHASE_HOLD \<and>
   phase (ducker_on_midi (run_samples 10 (ducker_on_midi (ducker_on_midi
     (scenario_instance MODE_GATE) [0x90, 36, 127]) [0x90, 36, 127])) [0x80, 36, 0]) = PHASE_HOLD \<and>
   active_notes (ducker_on_midi (run_samples 10 (ducker_on_midi (ducker_on_midi
     (scenario_instance MODE_GATE) [0x90, 36, 127]) [0x90, 36, 127])) [0x80, 36, 0]) = 1 \<and>
   1 < active_notes (run_samples 10 (ducker_on_midi (ducker_on_midi
     (scenario_instance MODE_GATE) [0x90, 36, 127]) [0x90, 36, 127]))"
proof -
  define s2 where "s2 = ducker_on_midi (ducker_on_midi (scenario_instance MODE_GATE)
     [0x90, 36, 127]) [0x90, 36, 127]"
  have "qualifies (ducker_on_midi (scenario_instance MODE_GATE) [0x90, 36, 127]) [0x90, 36, 127]
      = qualifies (scenario_instance MODE_GATE) [0x90, 36, 127]"
    by (rule qualifies_cong) (simp_all add: on_midi_filter_fields)
  then have q: "qualifies (ducker_on_midi (scenario_instance MODE_GATE) [0x90, 36, 127])
      [0x90, 36, 127]"
    using note_on_127(1) [of MODE_GATE] by simp
  have "s2 = start_attack ((ducker_on_midi (scenario_instance MODE_GATE) [0x90, 36, 127])
      \<lparr>active_notes := active_notes (ducker_on_midi (scenario_instance MODE_GATE) [0x90, 36, 127]) + 1,
       vel_depth := fmul (depth (ducker_on_midi (scenario_instance MODE_GATE) [0x90, 36, 127]))
         (velocity_scale (vel_sens (ducker_on_midi (scenario_instance MODE_GATE) [0x90, 36, 127]))
           ([0x90, 36, 127] ! 2))\<rparr>)"
    unfolding s2_def using q note_on_127(2) by (rule on_midi_note_on)
  then have s2: "phase s2 = PHASE_HOLD" "mode s2 = MODE_GATE" "active_notes s2 = 2"
    by (simp_all add: scenario_note_on start_attack_def
        Let_def samples_state_upd scenario_samples scenario_fields)
  have "(10::nat) = Suc 9" by simp
  then have "phase (run_samples 10 s2) = PHASE_HOLD" "active_notes (run_samples 10 s2) = 2"
    using hold_gate_run [OF s2(1,2), of 9] s2 by simp_all
  then show ?thesis
    unfolding s2_def [symmetric]
    using gate_overlapping_notes [of "scenario_instance MODE_GATE" "[0x80, 36, 0]"
        "[0x90, 36, 127]" 10]
    unfolding s2_def [symmetric]
    by (simp add: note_on_127 note_off_36 scenario_fields)
qed

subsection \<open>Output samples\<close>

text \<open>
  Claim C10, as the code has it. In every state reached from an instance in range
  (a fresh one, say) by processed samples and by messages whose velocity byte is at most
  127, the envelope value and the gain of every following sample lie in \<open>[0, 1]\<close>. For
  a gain in \<open>[0, 1]\<close> the output value is the truncation of the product of the input
  value and the gain, neither clamp branch is taken, and the output is no larger in
  magnitude than the input. Each output value of a block is computed so from the gain
  of its frame.
\<close>

theorem block_output_bounded:
  "(range_inv s0 \<and> phase_inv s0 \<and> (\<forall>ev\<in>set evs. velocity_ok ev) \<longrightarrow>
      0 \<le> envelope (run_events s0 evs) \<and> envelope (run_events s0 evs) \<le> 1 \<and>
      0 \<le> gain_at (run_events s0 evs) j \<and> gain_at (run_events s0 evs) j \<le> 1) \<and>
   (0 \<le> g \<and> g \<le> 1 \<longrightarrow>
      sint (apply_gain g x) = f2i (fmul (i2f (sint x)) g) \<and>
      \<not> 32767 < fmul (i2f (sint x)) g \<and> \<not> fmul (i2f (sint x)) g < - 32768 \<and>
      \<bar>sint (apply_gain g x)\<bar> \<le> \<bar>sint x\<bar>) \<and>
   (k < n \<and> 2 * n \<le> length audio \<longrightarrow>
      snd (process_frames 0 n s audio) ! (2 * k) = apply_gain (gain_at s k) (audio ! (2 * k)) \<and>
      snd (process_frames 0 n s audio) ! (2 * k + 1)
        = apply_gain (gain_at s k) (audio ! (2 * k + 1)))"
proof -
  have a: "0 \<le> envelope (run_events s0 evs) \<and> envelope (run_events s0 evs) \<le> 1 \<and>
      0 \<le> gain_at (run_events s0 evs) j \<and> gain_at (run_events s0 evs) j \<le> 1"
    if h: "range_inv s0" "phase_inv s0" "\<forall>ev\<in>set evs. velocity_ok ev"
  proof -
    note r = range_inv_run_events [OF h]
    then have "range_inv (run_samples (Suc j) (run_events s0 evs))"
      by (intro range_inv_run_samples) simp_all
    with r show ?thesis by (simp add: range_inv_def gain_at_def)
  qed
  have c: "snd (process_frames 0 n s audio) ! (2 * k) = apply_gain (gain_at s k) (audio ! (2 * k)) \<and>
      snd (process_frames 0 n s audio) ! (2 * k + 1)
        = apply_gain (gain_at s k) (audio ! (2 * k + 1))"
    if "k < n" "2 * n \<le> length audio"
    using process_frames_out [of 0 k n audio s] that by simp
  show ?thesis using a apply_gain_unit [of g x] c by blast
qed

theorem block_output_bounded_witness:
  "0 \<le> envelope (run_events (v2_create_instance [] []) [Midi [0x90, 36, 100], Sample]) \<and>
   envelope (run_events (v2_create_instance [] []) [Midi [0x90, 36, 100], Sample]) \<le> 1 \<and>
   (0::real) \<le> 1/2 \<and> (1/2::real) \<le> 1 \<and>
   sint (apply_gain (1/2) 1001) = 500 \<and>
   f2i (fmul (i2f (sint (1001::16 word))) (1/2)) = 500 \<and>
   \<bar>sint (apply_gain (1/2) 1001)\<bar> \<le> \<bar>sint (1001::16 word)\<bar> \<and>
   (0::nat) < 1 \<and> 2 * 1 \<le> length [1001, 1001 :: 16 word] \<and>
   snd (process_frames 0 1 (v2_create_instance [] []) [1001, 1001]) ! (2 * 0)
     = apply_gain (gain_at (v2_create_instance [] []) 0) ([1001, 1001] ! (2 * 0))"
  using block_output_bounded [of "v2_create_instance [] []" "[Midi [0x90, 36, 100], Sample]"
      0 "1/2" 1001 0 1 "[1001, 1001]" "v2_create_instance [] []"]
  by (simp add: range_inv_create velocity_ok_def apply_gain_half)

text \<open>
  The handler does not check that the velocity byte is below 128. With velocity
  sensitivity 1 and depth 1 the note-on \<open>[0x90, 36, 255]\<close> gives a depth of about 2.008
  and a negative gain: the input value 32767 is multiplied to \<open>-33025\<close>, the lower
  clamp branch is taken, and the output \<open>-32768\<close> is larger in magnitude than the input.
\<close>

theorem loud_velocity_counterexample:
  "range_inv ((v2_create_instance [] [])\<lparr>vel_sens := 1, attack := 0\<rparr>) \<and>
   gain_at (ducker_on_midi ((v2_create_instance [] [])\<lparr>vel_sens := 1, attack := 0\<rparr>)
     [0x90, 36, 255]) 0 = - (2113665 / 2097152) \<and>
   fmul (i2f (sint (32767::16 word))) (- (2113665 / 2097152)) < - 32768 \<and>
   f2i (fmul (i2f (sint (32767::16 word))) (- (2113665 / 2097152))) = - 33025 \<and>
   sint (apply_gain (- (2113665 / 2097152)) 32767) = - 32768 \<and>
   \<not> \<bar>sint (apply_gain (- (2113665 / 2097152)) 32767)\<bar> \<le> \<bar>sint (32767::16 word)\<bar>"
proof -
  have r: "range_inv ((v2_create_instance [] [])\<lparr>vel_sens := 1, attack := 0\<rparr>)"
    by (simp add: range_inv_def create_fields is_f32_0 is_f32_1)
  have g: "gain_at (ducker_on_midi ((v2_create_instance [] [])\<lparr>vel_sens := 1, attack := 0\<rparr>)
     [0x90, 36, 255]) 0 = - (2113665 / 2097152)"
  proof -
    have e: "fsub 1 (4210817 / 2097152) = - (2113665 / 2097152)"
      by (simp add: f32_eval)
    show ?thesis
      unfolding gain_at_def run_samples_Suc run_samples_0 loud_note_on
      by (subst hold_step_trigger) (simp_all add: create_fields e)
  qed
  have l: "fmul (i2f (sint (32767::16 word))) (- (2113665 / 2097152)) = - (4227201 / 128)"
    by (simp add: f32_eval)
  have a: "apply_gain (- (2113665 / 2097152)) 32767 = - 32768"
    unfolding apply_gain_def Let_def l by (simp add: f2i_def)
  have s: "sint (- 32768 :: 16 word) = - 32768" by simp
  show ?thesis
    unfolding l a s using r g by (simp add: f2i_def)
qed

subsection \<open>Saving and reloading the state\<close>

text \<open>
  Claim C8. Reading the \<^verbatim>\<open>state\<close> parameter of an instance and writing that string as
  the \<^verbatim>\<open>state\<close> parameter of a freshly created instance gives an instance with the same
  get-by-name result for each of the nine parameter keys, provided that the channel of
  the original is at most 16, its trigger note is in \<open>0..127\<close>, and each of its five
  \<^verbatim>\<open>float\<close> parameters is a value that a decimal string with at most three decimals in
  \<open>[0, 1]\<close> stores. The buffer of \<^verbatim>\<open>v2_get_param\<close> is taken to hold the whole string.
\<close>

theorem state_round_trip:
  assumes "channel inst \<le> 16" "0 \<le> trigger_note inst" "trigger_note inst \<le> 127"
    "milli (depth inst)" "milli (attack inst)" "milli (hold inst)" "milli (release inst)"
    "milli (vel_sens inst)"
  shows "do {
      json \<leftarrow> v2_get_param inst ''state'';
      loaded \<leftarrow> v2_set_param (v2_create_instance d c) ''state'' json;
      Some (map (v2_get_param loaded)
        [''channel'', ''trigger_note'', ''mode'', ''depth'', ''attack'', ''hold'', ''release'',
         ''curve'', ''vel_sens''])
    } = Some (map (v2_get_param inst)
        [''channel'', ''trigger_note'', ''mode'', ''depth'', ''attack'', ''hold'', ''release'',
         ''curve'', ''vel_sens''])"
proof -
  note m = assms(4-8) [THEN milli_reload(1)] assms(4-8) [THEN milli_reload(3)]
  have s: "v2_get_param inst ''state'' = Some (state_json inst)"
    by (simp add: v2_get_param_def)
  show ?thesis
    unfolding s
    by (simp add: set_state_json m v2_get_param_def channel_name_clamped assms(1-3))
qed

text \<open>The default configuration, and one that differs from it in every parameter, read back
  after the reload as they read before.\<close>

theorem state_round_trip_witness:
  "do {
      json \<leftarrow> v2_get_param (v2_create_instance [] []) ''state'';
      loaded \<leftarrow> v2_set_param (v2_create_instance [] []) ''state'' json;
      Some (map (v2_get_param loaded)
        [''channel'', ''trigger_note'', ''mode'', ''depth'', ''attack'', ''hold'', ''release'',
         ''curve'', ''vel_sens''])
    } = Some [Some ''1'', Some ''36'', Some ''Trigger'', Some ''1.00'', Some ''0.10'', Some ''0.20'',
    Some ''0.30'', Some ''Linear'', Some ''0.00''] \<and>
   do {
      json \<leftarrow> v2_get_param ((v2_create_instance [] [])\<lparr>channel := 0, trigger_note := 60,
        mode := MODE_GATE, depth := fl (fl64 (750 / 1000)), attack := fl (fl64 (5 / 1000)),
        hold := fl (fl64 (125 / 1000)), release := fl (fl64 (999 / 1000)), curve := CURVE_PUMP,
        vel_sens := fl (fl64 (500 / 1000))\<rparr>) ''state'';
      loaded \<leftarrow> v2_set_param (v2_create_instance [] []) ''state'' json;
      Some (map (v2_get_param loaded)
        [''channel'', ''trigger_note'', ''mode'', ''depth'', ''attack'', ''hold'', ''release'',
         ''curve'', ''vel_sens''])
    } = Some [Some ''Omni'', Some ''60'', Some ''Gate'', Some ''0.75'', Some ''0.00'', Some ''0.12'',
    Some ''1.00'', Some ''Pump'', Some ''0.50'']"
proof -
  let ?I = "(v2_create_instance [] [])\<lparr>channel := 0, trigger_note := 60,
        mode := MODE_GATE, depth := fl (fl64 (750 / 1000)), attack := fl (fl64 (5 / 1000)),
        hold := fl (fl64 (125 / 1000)), release := fl (fl64 (999 / 1000)), curve := CURVE_PUMP,
        vel_sens := fl (fl64 (500 / 1000))\<rparr>"
  have "do {
      json \<leftarrow> v2_get_param (v2_create_instance [] []) ''state'';
      loaded \<leftarrow> v2_set_param (v2_create_instance [] []) ''state'' json;
      Some (map (v2_get_param loaded)
        [''channel'', ''trigger_note'', ''mode'', ''depth'', ''attack'', ''hold'', ''release'',
         ''curve'', ''vel_sens''])
    } = Some (map (v2_get_param (v2_create_instance [] []))
        [''channel'', ''trigger_note'', ''mode'', ''depth'', ''attack'', ''hold'', ''release'',
         ''curve'', ''vel_sens''])"
    by (rule state_round_trip [OF _ _ _ milli_default]) (simp_all add: create_fields)
  then have a: "do {
      json \<leftarrow> v2_get_param (v2_create_instance [] []) ''state'';
      loaded \<leftarrow> v2_set_param (v2_create_instance [] []) ''state'' json;
      Some (map (v2_get_param loaded)
        [''channel'', ''trigger_note'', ''mode'', ''depth'', ''attack'', ''hold'', ''release'',
         ''curve'', ''vel_sens''])
    } = Some [Some ''1'', Some ''36'', Some ''Trigger'', Some ''1.00'', Some ''0.10'', Some ''0.20'',
    Some ''0.30'', Some ''Linear'', Some ''0.00'']"
    by (simp only: get_default)
  have m: "milli (depth ?I)" "milli (attack ?I)" "milli (hold ?I)" "milli (release ?I)"
    "milli (vel_sens ?I)"
    using milli_intro [of 750] milli_intro [of 5] milli_intro [of 125] milli_intro [of 999]
      milli_intro [of 500]
    by simp_all
  have "do {
      json \<leftarrow> v2_get_param ?I ''state'';
      loaded \<leftarrow> v2_set_param (v2_create_instance [] []) ''state'' json;
      Some (map (v2_get_param loaded)
        [''channel'', ''trigger_note'', ''mode'', ''depth'', ''attack'', ''hold'', ''release'',
         ''curve'', ''vel_sens''])
    } = Some (map (v2_get_param ?I)
        [''channel'', ''trigger_note'', ''mode'', ''depth'', ''attack'', ''hold'', ''release'',
         ''curve'', ''vel_sens''])"
    by (rule state_round_trip [OF _ _ _ m]) simp_all
  then have b: "do {
      json \<leftarrow> v2_get_param ?I ''state'';
      loaded \<leftarrow> v2_set_param (v2_create_instance [] []) ''state'' json;
      Some (map (v2_get_param loaded)
        [''channel'', ''trigger_note'', ''mode'', ''depth'', ''attack'', ''hold'', ''release'',
         ''curve'', ''vel_sens''])
    } = Some [Some ''Omni'', Some ''60'', Some ''Gate'', Some ''0.75'', Some ''0.00'', Some ''0.12'',
    Some ''1.00'', Some ''Pump'', Some ''0.50'']"
    by (simp only: get_custom)
  from a b show ?thesis by (rule conjI)
qed

text \<open>
  Without the provisos the round trip changes what is read back. The state keeps three
  decimals and a \<^verbatim>\<open>float\<close> key prints two: a depth set from \<^verbatim>\<open>0.0249\<close> reads \<^verbatim>\<open>0.02\<close>,
  is saved as \<^verbatim>\<open>0.025\<close>, and reads \<^verbatim>\<open>0.03\<close> after the reload. \<^verbatim>\<open>parse_channel\<close> does not
  clamp its numeric fallback: a channel set from \<^verbatim>\<open>17\<close> is stored as 272 and reads
  \<^verbatim>\<open>Omni\<close>; it is saved as 272, which the reload clamps to 16.
\<close>

theorem state_round_trip_counterexample:
  "do {
      inst \<leftarrow> v2_set_param (v2_create_instance [] []) ''depth'' ''0.0249'';
      v2_get_param inst ''depth''
    } = Some ''0.02'' \<and>
   do {
      inst \<leftarrow> v2_set_param (v2_create_instance [] []) ''depth'' ''0.0249'';
      json \<leftarrow> v2_get_param inst ''state'';
      loaded \<leftarrow> v2_set_param (v2_create_instance [] []) ''state'' json;
      v2_get_param loaded ''depth''
    } = Some ''0.03'' \<and>
   do {
      inst \<leftarrow> v2_set_param (v2_create_instance [] []) ''channel'' ''17'';
      v2_get_param inst ''channel''
    } = Some ''Omni'' \<and>
   do {
      inst \<leftarrow> v2_set_param (v2_create_instance [] []) ''channel'' ''17'';
      json \<leftarrow> v2_get_param inst ''state'';
      loaded \<leftarrow> v2_set_param (v2_create_instance [] []) ''state'' json;
      v2_get_param loaded ''channel''
    } = Some ''16''"
proof -
  let ?C = "v2_create_instance [] []"
  let ?A = "?C\<lparr>depth := 6684043 / 268435456\<rparr>"
  let ?B = "?C\<lparr>channel := 272\<rparr>"
  have A: "0 \<le> depth ?A" "0 \<le> attack ?A" "0 \<le> hold ?A" "0 \<le> release ?A" "0 \<le> vel_sens ?A"
    by (simp_all add: create_fields create_durations)
  have B: "0 \<le> depth ?B" "0 \<le> attack ?B" "0 \<le> hold ?B" "0 \<le> release ?B" "0 \<le> vel_sens ?B"
    by (simp_all add: create_fields create_durations)
  have dA: "depth ?A = 6684043 / 268435456" by simp
  have cB: "channel ?B = 272" by simp
  have m: "min 16 (max 0 272) = (16::int)" by simp
  have "do {
      inst \<leftarrow> v2_set_param ?C ''depth'' ''0.0249'';
      v2_get_param inst ''depth''
    } = Some ''0.02''"
    by (simp only: set_depth_0249 Option.bind.simps get_depth dA show_depth_0249)
  moreover have "do {
      inst \<leftarrow> v2_set_param ?C ''depth'' ''0.0249'';
      json \<leftarrow> v2_get_param inst ''state'';
      loaded \<leftarrow> v2_set_param ?C ''state'' json;
      v2_get_param loaded ''depth''
    } = Some ''0.03''"
    by (simp only: set_depth_0249 Option.bind.simps get_state reload_depth [OF A] dA
        depth_0249_reloaded show_depth_0249)
  moreover have "do {
      inst \<leftarrow> v2_set_param ?C ''channel'' ''17'';
      v2_get_param inst ''channel''
    } = Some ''Omni''"
    by (simp only: set_channel_17 Option.bind.simps get_channel cB channel_names)
  moreover have "do {
      inst \<leftarrow> v2_set_param ?C ''channel'' ''17'';
      json \<leftarrow> v2_get_param inst ''state'';
      loaded \<leftarrow> v2_set_param ?C ''state'' json;
      v2_get_param loaded ''channel''
    } = Some ''16''"
    by (simp only: set_channel_17 Option.bind.simps get_state reload_channel_name [OF B] cB m
        channel_names)
  ultimately show ?thesis by simp
qed
end
